theory Spec2Isabelle
  imports Main "HOL-Library.Word" "HOL-Library.List_Lexorder" "HOL-Library.Char_ord"
    "HOL-Library.Product_Lexorder" "HOL-Library.Multiset"
begin

unbundle bit_operations_syntax

section \<open>repal: logic extraction from a PAL dump\<close>

text \<open>
  The development follows \<^verbatim>\<open>repal.py\<close>. Python integers are unbounded, so addresses,
  bit masks and data words are \<^typ>\<open>int\<close>; bit positions, list indices and the widths of the
  device profile are \<^typ>\<open>nat\<close>. A generator is modelled by the list of the values it
  yields, in order. An exception is a value of type \<open>error\<close>, returned as \<open>Inl\<close>. The source's
  variables \<^verbatim>\<open>mask\<close>, \<^verbatim>\<open>bit\<close> and \<^verbatim>\<open>bits\<close> are written \<open>msk\<close>, \<open>b\<close> and \<open>bs\<close> where the
  names are taken by constants of the library.
\<close>

subsection \<open>Sub-mask iteration\<close>

text \<open>
  The first loop of \<^verbatim>\<open>iterate_mask\<close>: \<^verbatim>\<open>while bit <= mask\<close>, collecting the bits that
  are high in the mask. The loop variable starts at 1 and is only ever shifted left, so it
  is always positive; the conjunct \<open>0 < b\<close> states this and makes the recursion total.
\<close>

function iterate_mask_bits :: "int \<Rightarrow> int \<Rightarrow> int list \<Rightarrow> int list" where
  "iterate_mask_bits msk b bs =
     (if 0 < b \<and> b \<le> msk
      then iterate_mask_bits msk (push_bit 1 b)
             (if msk AND b \<noteq> 0 then bs @ [b] else bs)
      else bs)"
  by pat_completeness auto
termination
  by (relation "measure (\<lambda>(msk, b, bs). nat (msk + 1 - b))") auto

declare iterate_mask_bits.simps [simp del]

text \<open>
  The inner loop of \<^verbatim>\<open>iterate_mask\<close>: for one counter value \<open>n\<close>, bit \<open>i\<close> of \<open>n\<close>
  (tested with \<open>srcmask\<close>) decides whether the \<open>i\<close>-th collected bit goes into \<open>r\<close>.
\<close>

fun iterate_mask_combine :: "int list \<Rightarrow> int \<Rightarrow> int \<Rightarrow> int \<Rightarrow> int" where
  "iterate_mask_combine [] n srcmask r = r"
| "iterate_mask_combine (b # bs) n srcmask r =
     iterate_mask_combine bs n (push_bit 1 srcmask)
       (if n AND srcmask \<noteq> 0 then r OR b else r)"

definition iterate_mask :: "int \<Rightarrow> int list" where
  "iterate_mask msk =
     (if msk < 1 then []
      else (let bs = iterate_mask_bits msk 1 []
            in map (\<lambda>n. iterate_mask_combine bs (int n) 1 0) [0 ..< 2 ^ length bs]))"

subsection \<open>Errors, list access and text\<close>

text \<open>
  The exceptions the modelled code can raise. \<open>RuntimeError\<close> carries its message.
\<close>

datatype error = IndexError | KeyError | TypeError | ValueError | RuntimeError string

text \<open>
  Reading \<^verbatim>\<open>xs[i]\<close>: an index from 0 up to the length reads from the front, one from
  \<open>- length\<close> up to \<open>-1\<close> from the back, any other raises \<^verbatim>\<open>IndexError\<close>.
\<close>

definition py_index :: "'a list \<Rightarrow> int \<Rightarrow> error + 'a" where
  "py_index xs i =
     (if 0 \<le> i \<and> i < int (length xs) then Inr (xs ! nat i)
      else if i < 0 \<and> - int (length xs) \<le> i then Inr (xs ! nat (int (length xs) + i))
      else Inl IndexError)"

text \<open>\<^verbatim>\<open>list.index\<close>, with \<open>None\<close> where Python raises the \<^verbatim>\<open>ValueError\<close> that every caller catches.\<close>

fun py_list_index :: "'a list \<Rightarrow> 'a \<Rightarrow> nat option" where
  "py_list_index [] y = None"
| "py_list_index (x # xs) y =
     (if x = y then Some 0 else map_option Suc (py_list_index xs y))"

text \<open>A loop whose body may raise: the first error ends it.\<close>

fun for_each :: "('a \<Rightarrow> 's \<Rightarrow> error + 's) \<Rightarrow> 'a list \<Rightarrow> 's \<Rightarrow> error + 's" where
  "for_each f [] s = Inr s"
| "for_each f (x # xs) s = (case f x s of Inl e \<Rightarrow> Inl e | Inr s' \<Rightarrow> for_each f xs s')"

fun map_each :: "('a \<Rightarrow> error + 'b) \<Rightarrow> 'a list \<Rightarrow> error + 'b list" where
  "map_each f [] = Inr []"
| "map_each f (x # xs) =
     (case f x of Inl e \<Rightarrow> Inl e
      | Inr y \<Rightarrow> (case map_each f xs of Inl e \<Rightarrow> Inl e | Inr ys \<Rightarrow> Inr (y # ys)))"

definition NL :: string where
  "NL = [CHR 0x0A]"

definition QUOTE :: string where
  "QUOTE = [CHR 0x27]"

definition ANDSTR :: string where "ANDSTR = ''&''"
definition ORSTR :: string where "ORSTR = ''#''"
definition NOTSTR :: string where "NOTSTR = ''!''"

text \<open>\<^verbatim>\<open>str\<close> of an integer: its decimal digits.\<close>

function py_str_digits :: "nat \<Rightarrow> string" where
  "py_str_digits n =
     (if n < 10 then [char_of (48 + n)]
      else py_str_digits (n div 10) @ [char_of (48 + n mod 10)])"
  by pat_completeness auto
termination
  by (relation "measure id") auto

declare py_str_digits.simps [simp del]

definition py_str :: "int \<Rightarrow> string" where
  "py_str i = (if i < 0 then CHR ''-'' # py_str_digits (nat (- i)) else py_str_digits (nat i))"

text \<open>\<^verbatim>\<open>sep.join(xs)\<close>.\<close>

fun py_join :: "string \<Rightarrow> string list \<Rightarrow> string" where
  "py_join sep [] = []"
| "py_join sep [x] = x"
| "py_join sep (x # y # ys) = x @ sep @ py_join sep (y # ys)"

subsection \<open>The device profile and the pins\<close>

text \<open>
  The profile is the dictionary \<^verbatim>\<open>device\<close> read from the profiles file. The keys of
  \<^verbatim>\<open>pal_pin_names\<close> are the decimal texts of the pin numbers; the model keys the
  dictionary by the pin number itself and keeps the order of its items.
\<close>

record Device =
  pal_device_name :: string
  eprom_address_width :: nat
  eprom_data_width :: nat
  eprom_hiz_probe_pins :: nat
  eprom_address_pins :: "int list"
  eprom_data_pins :: "int list"
  pal_pin_names :: "(int \<times> string) list"
  pal_output_pins :: nat

record PinDependencies =
  bitmap :: int
  bits :: "int list"
  pinnames :: "string list"

text \<open>
  The class \<^verbatim>\<open>Pin\<close>. The lists of readable conditions, which only feed the optional
  truth-table file, are left out.
\<close>

record Pin =
  name :: string
  number :: int
  bitpos :: nat
  bitmask :: int
  hizprobebitpos :: "nat option"
  hizprobebitmask :: int
  seenlow :: bool
  seenhigh :: bool
  depends :: PinDependencies
  oe_depends :: PinDependencies
  dontcareterms :: "int list"
  negminterms :: "int list"
  posminterms :: "int list"
  oenegminterms :: "int list"
  oeposminterms :: "int list"

definition new_PinDependencies :: PinDependencies where
  "new_PinDependencies = \<lparr>bitmap = 0, bits = [], pinnames = []\<rparr>"

definition new_Pin :: Pin where
  "new_Pin = \<lparr>name = [], number = 0, bitpos = 0, bitmask = 0, hizprobebitpos = Some 0,
     hizprobebitmask = 0, seenlow = False, seenhigh = False,
     depends = new_PinDependencies, oe_depends = new_PinDependencies,
     dontcareterms = [], negminterms = [], posminterms = [],
     oenegminterms = [], oeposminterms = []\<rparr>"

definition pin_name_of :: "Device \<Rightarrow> int \<Rightarrow> error + string" where
  "pin_name_of device num =
     (case map_of (pal_pin_names device) num of None \<Rightarrow> Inl KeyError | Some n \<Rightarrow> Inr n)"

definition epromaddrbitpos_to_palpinnum :: "Device \<Rightarrow> nat \<Rightarrow> error + int" where
  "epromaddrbitpos_to_palpinnum device epromaddrbitpos =
     py_index (eprom_address_pins device) (int epromaddrbitpos)"

definition epromdatabitpos_to_palpinnum :: "Device \<Rightarrow> nat \<Rightarrow> error + int" where
  "epromdatabitpos_to_palpinnum device epromdatabitpos =
     py_index (eprom_data_pins device) (int epromdatabitpos)"

definition palpinnum_to_epromaddrbitpos :: "Device \<Rightarrow> int \<Rightarrow> nat option" where
  "palpinnum_to_epromaddrbitpos device palpinnum =
     py_list_index (eprom_address_pins device) palpinnum"

definition palpinnum_to_epromdatabitpos :: "Device \<Rightarrow> int \<Rightarrow> nat option" where
  "palpinnum_to_epromdatabitpos device palpinnum =
     py_list_index (eprom_data_pins device) palpinnum"

definition build_inputpin_configuration :: "Device \<Rightarrow> nat \<Rightarrow> error + Pin" where
  "build_inputpin_configuration device inputpinbitpos =
     (case epromaddrbitpos_to_palpinnum device inputpinbitpos of Inl e \<Rightarrow> Inl e
      | Inr num \<Rightarrow>
         (case pin_name_of device num of Inl e \<Rightarrow> Inl e
          | Inr nm \<Rightarrow>
             Inr (new_Pin\<lparr>bitpos := inputpinbitpos, bitmask := push_bit inputpinbitpos 1,
                         number := num, name := nm\<rparr>)))"

definition build_inputpins_configuration :: "Device \<Rightarrow> error + Pin list" where
  "build_inputpins_configuration device =
     map_each (build_inputpin_configuration device) [0 ..< eprom_address_width device]"

definition build_outputpin_configuration :: "Device \<Rightarrow> nat \<Rightarrow> error + Pin" where
  "build_outputpin_configuration device outputpinbitpos =
     (case epromdatabitpos_to_palpinnum device outputpinbitpos of Inl e \<Rightarrow> Inl e
      | Inr num \<Rightarrow>
         (case pin_name_of device num of Inl e \<Rightarrow> Inl e
          | Inr nm \<Rightarrow>
             (let probe = palpinnum_to_epromaddrbitpos device num
              in Inr (new_Pin\<lparr>bitpos := outputpinbitpos, bitmask := push_bit outputpinbitpos 1,
                         number := num, name := nm, hizprobebitpos := probe,
                         hizprobebitmask :=
                           (case probe of Some p \<Rightarrow> push_bit p 1 | None \<Rightarrow> 0)\<rparr>))))"

definition build_outputpins_configuration :: "Device \<Rightarrow> error + Pin list" where
  "build_outputpins_configuration device =
     map_each (build_outputpin_configuration device) [0 ..< pal_output_pins device]"

subsection \<open>The dependency scan\<close>

text \<open>
  The hi-z test of the scan for one output pin at the two addresses of an input pair: false
  for a pin without probe, else whether toggling the probe changes the pin's bit.
\<close>

definition scan_is_hiz :: "int list \<Rightarrow> Pin \<Rightarrow> int \<Rightarrow> int \<Rightarrow> int \<Rightarrow> int
    \<Rightarrow> error + (bool \<times> bool)" where
  "scan_is_hiz dumpdata outputpin a0 a1 d0 d1 =
     (if hizprobebitpos outputpin = None then Inr (False, False)
      else
        (case py_index dumpdata (a0 XOR hizprobebitmask outputpin) of Inl e \<Rightarrow> Inl e
         | Inr h0 \<Rightarrow>
            (case py_index dumpdata (a1 XOR hizprobebitmask outputpin) of Inl e \<Rightarrow> Inl e
             | Inr h1 \<Rightarrow>
                Inr ((d0 AND bitmask outputpin) \<noteq> (h0 AND bitmask outputpin),
                     (d1 AND bitmask outputpin) \<noteq> (h1 AND bitmask outputpin)))))"

definition add_dependency :: "Pin \<Rightarrow> PinDependencies \<Rightarrow> PinDependencies" where
  "add_dependency inputpin d =
     d\<lparr>pinnames := pinnames d @ [name inputpin],
       bits := bits d @ [bitmask inputpin],
       bitmap := bitmap d OR bitmask inputpin\<rparr>"

definition see_output :: "bool \<Rightarrow> int \<Rightarrow> Pin \<Rightarrow> Pin" where
  "see_output is_hiz output outputpin =
     (if \<not> is_hiz
      then (if output = 0 then outputpin\<lparr>seenlow := True\<rparr> else outputpin\<lparr>seenhigh := True\<rparr>)
      else outputpin)"

text \<open>The body of the loop over the output pins, for one input pin at one address.\<close>

definition scan_outputpin :: "int list \<Rightarrow> Pin \<Rightarrow> int \<Rightarrow> int \<Rightarrow> int \<Rightarrow> int \<Rightarrow> Pin
    \<Rightarrow> error + Pin" where
  "scan_outputpin dumpdata inputpin a0 a1 d0 d1 outputpin =
     (if a0 AND hizprobebitmask outputpin > 0 then Inr outputpin
      else if a1 AND hizprobebitmask outputpin > 0 then Inr outputpin
      else
        (let o0 = d0 AND bitmask outputpin; o1 = d1 AND bitmask outputpin
         in case scan_is_hiz dumpdata outputpin a0 a1 d0 d1 of Inl e \<Rightarrow> Inl e
            | Inr (hiz0, hiz1) \<Rightarrow>
               (let p1 = (if hiz0 \<noteq> hiz1 \<and> name inputpin \<notin> set (pinnames (oe_depends outputpin))
                          then outputpin\<lparr>oe_depends := add_dependency inputpin (oe_depends outputpin)\<rparr>
                          else outputpin);
                    p2 = (if \<not> hiz0 \<and> \<not> hiz1 \<and> o0 \<noteq> o1
                             \<and> name inputpin \<notin> set (pinnames (depends p1))
                          then p1\<lparr>depends := add_dependency inputpin (depends p1)\<rparr>
                          else p1)
                in Inr (see_output hiz1 o1 (see_output hiz0 o0 p2)))))"

text \<open>The body of the loop over the input pins, at one address.\<close>

definition scan_inputpin :: "int list \<Rightarrow> int \<Rightarrow> Pin \<Rightarrow> Pin list \<Rightarrow> error + Pin list" where
  "scan_inputpin dumpdata eprom_address inputpin output_pin_mappings =
     (if eprom_address AND bitmask inputpin > 0 then Inr output_pin_mappings
      else
        (let a0 = eprom_address; a1 = eprom_address OR bitmask inputpin
         in case py_index dumpdata a0 of Inl e \<Rightarrow> Inl e
            | Inr d0 \<Rightarrow>
               (case py_index dumpdata a1 of Inl e \<Rightarrow> Inl e
                | Inr d1 \<Rightarrow>
                   map_each (scan_outputpin dumpdata inputpin a0 a1 d0 d1) output_pin_mappings)))"

definition build_outputpins_dependencies :: "Device \<Rightarrow> int list \<Rightarrow> Pin list \<Rightarrow> Pin list
    \<Rightarrow> error + Pin list" where
  "build_outputpins_dependencies device dumpdata input_pin_mappings output_pin_mappings =
     for_each (\<lambda>eprom_address. for_each (scan_inputpin dumpdata (int eprom_address)) input_pin_mappings)
       [0 ..< 2 ^ eprom_address_width device] output_pin_mappings"


subsection \<open>Minterms\<close>

text \<open>
  \<^verbatim>\<open>build_outputpin_minterm\<close>: bit \<open>pinidx\<close> of the minterm is set when the
  \<open>pinidx\<close>-th dependency bit is high in the address.
\<close>

fun build_outputpin_minterm_loop :: "int list \<Rightarrow> int \<Rightarrow> nat \<Rightarrow> int \<Rightarrow> int" where
  "build_outputpin_minterm_loop [] epromaddr pinidx minterm = minterm"
| "build_outputpin_minterm_loop (b # bs) epromaddr pinidx minterm =
     build_outputpin_minterm_loop bs epromaddr (Suc pinidx)
       (if epromaddr AND b \<noteq> 0 then minterm OR push_bit pinidx 1 else minterm)"

definition build_outputpin_minterm :: "PinDependencies \<Rightarrow> int \<Rightarrow> int" where
  "build_outputpin_minterm dependencies epromaddr =
     build_outputpin_minterm_loop (bits dependencies) epromaddr 0 0"

subsection \<open>The relevance test and the effective output value\<close>

definition hiz_input_mask :: "Device \<Rightarrow> int" where
  "hiz_input_mask device =
     push_bit (eprom_address_width device - eprom_hiz_probe_pins device)
       (2 ^ eprom_hiz_probe_pins device - 1)"

definition hiz_data_mask :: "Device \<Rightarrow> int" where
  "hiz_data_mask device =
     push_bit (eprom_hiz_probe_pins device)
       (2 ^ (eprom_data_width device - eprom_hiz_probe_pins device) - 1)"

text \<open>
  The loop of \<^verbatim>\<open>check_input_combination_is_relevent\<close> over the probe settings; it
  returns at the first match.
\<close>

fun check_input_combination_loop :: "Device \<Rightarrow> int list \<Rightarrow> int \<Rightarrow> int list \<Rightarrow> error + bool" where
  "check_input_combination_loop device dumpdata epromaddr [] = Inr False"
| "check_input_combination_loop device dumpdata epromaddr (otherepromaddrbits # rest) =
     (let epromaddr2 = epromaddr OR otherepromaddrbits;
          hiz_data = drop_bit (eprom_address_width device - eprom_hiz_probe_pins device)
                       (epromaddr2 AND hiz_input_mask device)
      in case py_index dumpdata epromaddr2 of Inl e \<Rightarrow> Inl e
         | Inr d \<Rightarrow>
            (let relevant_data = d AND NOT (hiz_data_mask device)
             in if hiz_data = relevant_data then Inr True
                else check_input_combination_loop device dumpdata epromaddr rest))"

text \<open>
  The two masks are computed first. With fewer address bits than probe pins the shift count
  is negative (\<^verbatim>\<open>ValueError\<close>); with fewer data bits than probe pins the power is a
  float, which cannot be shifted (\<^verbatim>\<open>TypeError\<close>).
\<close>

definition check_input_combination_is_relevent :: "Device \<Rightarrow> int list \<Rightarrow> Pin \<Rightarrow> int
    \<Rightarrow> error + bool" where
  "check_input_combination_is_relevent device dumpdata outputpin epromaddr =
     (if eprom_address_width device < eprom_hiz_probe_pins device then Inl ValueError
      else if eprom_data_width device < eprom_hiz_probe_pins device then Inl TypeError
      else
        (let inversebitmap = (2 ^ eprom_address_width device - 1) XOR bitmap (depends outputpin)
         in check_input_combination_loop device dumpdata epromaddr
              (iterate_mask (inversebitmap AND hiz_input_mask device))))"

definition no_drive_message :: "Pin \<Rightarrow> string" where
  "no_drive_message outputpin =
     ''Could not find input combination which does not lead to hi-z for pin '' @ name outputpin"

fun get_output_pin_data_loop :: "int list \<Rightarrow> Pin \<Rightarrow> int \<Rightarrow> int list \<Rightarrow> error + int" where
  "get_output_pin_data_loop dumpdata outputpin epromaddr [] =
     Inl (RuntimeError (no_drive_message outputpin))"
| "get_output_pin_data_loop dumpdata outputpin epromaddr (otherepromaddrbits # rest) =
     (let epromaddr2 = epromaddr OR otherepromaddrbits
      in case py_index dumpdata epromaddr2 of Inl e \<Rightarrow> Inl e
         | Inr d \<Rightarrow>
            (case py_index dumpdata (epromaddr2 XOR hizprobebitmask outputpin) of Inl e \<Rightarrow> Inl e
             | Inr h \<Rightarrow>
                if (d AND bitmask outputpin) = (h AND bitmask outputpin) then Inr d
                else get_output_pin_data_loop dumpdata outputpin epromaddr rest))"

definition get_output_pin_data :: "int list \<Rightarrow> Pin \<Rightarrow> int \<Rightarrow> error + int" where
  "get_output_pin_data dumpdata outputpin epromaddr =
     (case py_index dumpdata epromaddr of Inl e \<Rightarrow> Inl e
      | Inr d \<Rightarrow>
         (case py_index dumpdata (epromaddr XOR hizprobebitmask outputpin) of Inl e \<Rightarrow> Inl e
          | Inr h \<Rightarrow>
             if (d AND bitmask outputpin) = (h AND bitmask outputpin) then Inr d
             else get_output_pin_data_loop dumpdata outputpin epromaddr
                    (iterate_mask (bitmap (oe_depends outputpin)))))"

subsection \<open>Building the minterm lists\<close>

text \<open>
  The two statements that sort the parallel lists of a dependency set together, as pairs
  (bit, name): the first leaves tuples, the second sorts again and leaves lists.
\<close>

definition sort_dependencies :: "PinDependencies \<Rightarrow> PinDependencies" where
  "sort_dependencies d =
     (if length (bits d) > 0
      then (let s1 = sort (zip (bits d) (pinnames d));
                s2 = sort (zip (map fst s1) (map snd s1))
            in d\<lparr>bits := map fst s2, pinnames := map snd s2\<rparr>)
      else d)"

definition classify_combination :: "Device \<Rightarrow> int list \<Rightarrow> int \<Rightarrow> Pin \<Rightarrow> error + Pin" where
  "classify_combination device dumpdata epromaddr outputpin =
     (let minterm = build_outputpin_minterm (depends outputpin) epromaddr
      in case check_input_combination_is_relevent device dumpdata outputpin epromaddr of
           Inl e \<Rightarrow> Inl e
         | Inr relevant \<Rightarrow>
            if \<not> relevant
            then Inr (outputpin\<lparr>dontcareterms := dontcareterms outputpin @ [minterm]\<rparr>)
            else
              (case get_output_pin_data dumpdata outputpin epromaddr of Inl e \<Rightarrow> Inl e
               | Inr d \<Rightarrow>
                  if d AND bitmask outputpin = 0
                  then Inr (outputpin\<lparr>negminterms := negminterms outputpin @ [minterm]\<rparr>)
                  else Inr (outputpin\<lparr>posminterms := posminterms outputpin @ [minterm]\<rparr>)))"

definition classify_oe_combination :: "int list \<Rightarrow> int \<Rightarrow> Pin \<Rightarrow> error + Pin" where
  "classify_oe_combination dumpdata epromaddr outputpin =
     (let minterm = build_outputpin_minterm (oe_depends outputpin) epromaddr
      in case py_index dumpdata epromaddr of Inl e \<Rightarrow> Inl e
         | Inr d \<Rightarrow>
            (case py_index dumpdata (epromaddr XOR hizprobebitmask outputpin) of Inl e \<Rightarrow> Inl e
             | Inr h \<Rightarrow>
                if (d AND bitmask outputpin) \<noteq> (h AND bitmask outputpin)
                then Inr (outputpin\<lparr>oenegminterms := oenegminterms outputpin @ [minterm]\<rparr>)
                else Inr (outputpin\<lparr>oeposminterms := oeposminterms outputpin @ [minterm]\<rparr>)))"

text \<open>The body of the loop of \<^verbatim>\<open>build_outputpins_equations\<close>, for one output pin.\<close>

definition build_outputpin_equations :: "Device \<Rightarrow> int list \<Rightarrow> Pin \<Rightarrow> error + Pin" where
  "build_outputpin_equations device dumpdata outputpin =
     (let p1 = outputpin\<lparr>depends := sort_dependencies (depends outputpin)\<rparr>;
          p2 = p1\<lparr>oe_depends := sort_dependencies (oe_depends p1)\<rparr>
      in case (if bitmap (depends p2) \<noteq> 0
               then for_each (classify_combination device dumpdata)
                      (iterate_mask (bitmap (depends p2))) p2
               else Inr p2) of
           Inl e \<Rightarrow> Inl e
         | Inr p3 \<Rightarrow>
            if bitmap (oe_depends p3) \<noteq> 0
            then for_each (classify_oe_combination dumpdata)
                   (iterate_mask (bitmap (oe_depends p3))) p3
            else Inr p3)"

definition build_outputpins_equations :: "Device \<Rightarrow> int list \<Rightarrow> Pin list \<Rightarrow> error + Pin list" where
  "build_outputpins_equations device dumpdata outputpins =
     map_each (build_outputpin_equations device dumpdata) outputpins"

text \<open>
  The analysis part of the main program: the pin lists, the dependency scan and the
  minterm lists, in this order.
\<close>

definition analyse :: "Device \<Rightarrow> int list \<Rightarrow> error + Pin list" where
  "analyse device dumpdata =
     (case build_inputpins_configuration device of Inl e \<Rightarrow> Inl e
      | Inr inputpins \<Rightarrow>
         (case build_outputpins_configuration device of Inl e \<Rightarrow> Inl e
          | Inr outputpins \<Rightarrow>
             (case build_outputpins_dependencies device dumpdata inputpins outputpins of
                Inl e \<Rightarrow> Inl e
              | Inr scanned \<Rightarrow> build_outputpins_equations device dumpdata scanned)))"

subsection \<open>Writing the equations file\<close>

text \<open>
  The text written to the equations file is the list of the strings passed to
  \<^verbatim>\<open>equations.write\<close>, in order; the file is their concatenation. The minimizer
  \<^verbatim>\<open>boolexprsimplifier\<close> is a parameter: it returns a boolean, or a value whose first
  element is the list of products, each a pair of value bits and care mask. The parameter
  \<^verbatim>\<open>pinnames\<close> of the writers is written \<open>pnames\<close>.
\<close>

datatype polarity = Auto | Both | Positive | Negative

datatype simplified = SBool bool | SProducts "(int \<times> int) list"

type_synonym simplifier = "nat \<Rightarrow> int list \<Rightarrow> int list \<Rightarrow> simplified"

definition simplify_minterms :: "simplifier \<Rightarrow> string list \<Rightarrow> int list \<Rightarrow> int list \<Rightarrow> simplified" where
  "simplify_minterms boolexprsimplifier pin_names minterms dontcareminterms =
     boolexprsimplifier (length pin_names) minterms dontcareminterms"

function get_set_bits_loop :: "nat \<Rightarrow> int \<Rightarrow> nat \<Rightarrow> int \<Rightarrow> nat list" where
  "get_set_bits_loop bitcount bs bitnum b =
     (if bitnum < bitcount
      then (if bs AND b \<noteq> 0 then [bitnum] else [])
             @ get_set_bits_loop bitcount bs (Suc bitnum) (push_bit 1 b)
      else [])"
  by pat_completeness auto
termination
  by (relation "measure (\<lambda>(bitcount, bs, bitnum, b). bitcount - bitnum)") auto

declare get_set_bits_loop.simps [simp del]

definition get_set_bits :: "nat \<Rightarrow> int \<Rightarrow> nat list" where
  "get_set_bits bitcount bs = get_set_bits_loop bitcount bs 0 1"

definition write_equations_newline :: "string list" where
  "write_equations_newline = [NL]"

definition write_equations_section_title :: "string \<Rightarrow> string list" where
  "write_equations_section_title title = [NL, ''/* '' @ title @ '' */'' @ NL, NL]"

text \<open>The symbols of one product: a pin name, or its negation, for each bit of the care mask.\<close>

fun product_symbols :: "string list \<Rightarrow> int \<Rightarrow> int \<Rightarrow> int \<Rightarrow> string list" where
  "product_symbols [] b bs msk = []"
| "product_symbols (pinname # rest) b bs msk =
     (if msk AND b \<noteq> 0
      then [if bs AND b \<noteq> 0 then pinname else ''!'' @ pinname]
      else [])
     @ product_symbols rest (push_bit 1 b) bs msk"

text \<open>The loop over the sorted products: one write for each product.\<close>

fun write_products :: "string \<Rightarrow> string list \<Rightarrow> nat \<Rightarrow> bool \<Rightarrow> nat \<Rightarrow> (int \<times> int) list
    \<Rightarrow> string list" where
  "write_products signedname pnames n isfirstproduct i [] = []"
| "write_products signedname pnames n isfirstproduct i (p # ps) =
     (let line = py_join '' & '' (product_symbols pnames 1 (fst p) (snd p));
          eol = (if i = n - 1 then '';'' else [])
      in (if isfirstproduct then signedname @ '' = '' @ line @ eol @ NL
          else replicate (length signedname) CHR '' '' @ '' '' @ ORSTR @ '' '' @ line @ eol @ NL)
         # write_products signedname pnames n False (Suc i) ps)"

definition write_pin_equations :: "string \<Rightarrow> string list \<Rightarrow> simplified \<Rightarrow> polarity \<Rightarrow> string list" where
  "write_pin_equations nm pnames results pol =
     (let signedname = (if pol = Positive then nm else NOTSTR @ nm)
      in case results of
           SBool True \<Rightarrow> [signedname @ '' = '' @ QUOTE @ ''b'' @ QUOTE @ ''1;'' @ NL]
         | SBool False \<Rightarrow> [signedname @ '' = '' @ QUOTE @ ''b'' @ QUOTE @ ''0;'' @ NL]
         | SProducts result \<Rightarrow>
            (let sorted_result = sort_key (\<lambda>r. get_set_bits (length pnames) (snd r)) result
             in write_products signedname pnames (length sorted_result) True 0 sorted_result))"

text \<open>
  The header. \<open>date\<close> is the text of \<^verbatim>\<open>datetime.datetime.now().strftime("%x")\<close>: the
  local date of the run, which the program reads from the clock.
\<close>

definition write_equations_file_header :: "string \<Rightarrow> string \<Rightarrow> string \<Rightarrow> string list" where
  "write_equations_file_header filename devicename date =
     [''Name '' @ filename @ '';'' @ NL,
      ''Device '' @ devicename @ '';'' @ NL,
      ''Partno ;'' @ NL,
      ''Revision ;'' @ NL,
      ''Date '' @ date @ '';'' @ NL,
      ''Designer ;'' @ NL,
      ''Company ;'' @ NL,
      ''Assembly ;'' @ NL,
      ''Location ;'' @ NL,
      NL]"

definition pin_alias_line :: "int \<Rightarrow> string \<Rightarrow> string \<Rightarrow> string" where
  "pin_alias_line num nm comment =
     ''pin '' @ py_str num @ '' = '' @ nm @ '';  /* '' @ comment @ '' */ '' @ NL"

definition write_equations_pin_alias :: "Device \<Rightarrow> Pin list \<Rightarrow> int \<times> string \<Rightarrow> error + string list" where
  "write_equations_pin_alias device outputpins item =
     (let num = fst item; nm = snd item
      in case palpinnum_to_epromdatabitpos device num of
           None \<Rightarrow> Inr [pin_alias_line num nm ''Dedicated input'']
         | Some outputindex \<Rightarrow>
            (case py_index outputpins (int outputindex) of Inl e \<Rightarrow> Inl e
             | Inr outputpin \<Rightarrow>
                Inr [pin_alias_line num nm
                  (if bitmap (oe_depends outputpin) = 0
                   then (if bitmap (depends outputpin) = 0
                         then (if seenhigh outputpin then ''Fixed high output''
                               else if seenlow outputpin then ''Fixed low output''
                               else ''Input'')
                         else ''Combinatorial output'')
                   else (if bitmap (depends outputpin) = 0
                         then (if seenhigh outputpin then ''Fixed high output w/ output enable''
                               else ''Fixed low output w/ output enable'')
                         else ''Combinatorial output w/ output enable''))]))"

definition write_equations_pin_aliases :: "Device \<Rightarrow> Pin list \<Rightarrow> error + string list" where
  "write_equations_pin_aliases device outputpins =
     (case map_each (write_equations_pin_alias device outputpins) (pal_pin_names device) of
        Inl e \<Rightarrow> Inl e
      | Inr liness \<Rightarrow>
         Inr (write_equations_section_title ''Pin mappings'' @ concat liness
              @ write_equations_newline))"

text \<open>
  \<^verbatim>\<open>write_equations_pin_name_value\<close>, as far as the equations file goes; the callers
  pass the value 0 or 1.
\<close>

definition write_equations_pin_name_value :: "string \<Rightarrow> int \<Rightarrow> polarity \<Rightarrow> string list" where
  "write_equations_pin_name_value nm v pol =
     (let pos0 = nm @ '' = '' @ QUOTE @ ''b'' @ QUOTE @ ''0;'' @ NL;
          neg1 = NOTSTR @ nm @ '' = '' @ QUOTE @ ''b'' @ QUOTE @ ''1;'' @ NL;
          pos1 = nm @ '' = '' @ QUOTE @ ''b'' @ QUOTE @ ''1;'' @ NL;
          neg0 = NOTSTR @ nm @ '' = '' @ QUOTE @ ''b'' @ QUOTE @ ''0;'' @ NL
      in if v = 0
         then (case pol of Auto \<Rightarrow> [pos0] | Positive \<Rightarrow> [pos0] | Negative \<Rightarrow> [neg1]
               | Both \<Rightarrow> [pos0, neg1])
         else if v = 1
         then (case pol of Auto \<Rightarrow> [pos1] | Positive \<Rightarrow> [pos1] | Negative \<Rightarrow> [neg0]
               | Both \<Rightarrow> [pos1, neg0])
         else [])"

text \<open>
  The choice between the two covers, shared by the output and the output-enable equations.
  Under \<open>Auto\<close> with a product list for the positive cover, the length of the negative
  cover is taken; on a boolean this raises \<^verbatim>\<open>TypeError\<close>.
\<close>

definition write_simplified_equations :: "string \<Rightarrow> string list \<Rightarrow> simplified \<Rightarrow> simplified
    \<Rightarrow> polarity \<Rightarrow> error + string list" where
  "write_simplified_equations nm pnames simplified_terms_pos simplified_terms_neg pol =
     (if pol = Both
      then Inr (write_pin_equations nm pnames simplified_terms_pos Positive
                @ write_pin_equations nm pnames simplified_terms_neg Negative)
      else
        (case (if pol = Positive then Inr True
               else if pol = Auto
               then (case simplified_terms_pos of
                       SBool b \<Rightarrow> Inr True
                     | SProducts ps \<Rightarrow>
                        (case simplified_terms_neg of
                           SBool b \<Rightarrow> Inl TypeError
                         | SProducts ns \<Rightarrow> Inr (length ps \<le> length ns)))
               else Inr False) of
           Inl e \<Rightarrow> Inl e
         | Inr True \<Rightarrow> Inr (write_pin_equations nm pnames simplified_terms_pos Positive)
         | Inr False \<Rightarrow> Inr (write_pin_equations nm pnames simplified_terms_neg Negative)))"

text \<open>The body of the loop of \<^verbatim>\<open>write_equations_pin_output_equations\<close>, for one pin.\<close>

definition write_equations_pin_output_equation :: "simplifier \<Rightarrow> polarity \<Rightarrow> Pin
    \<Rightarrow> error + string list" where
  "write_equations_pin_output_equation boolexprsimplifier pol outputpin =
     (if bitmap (depends outputpin) = 0
      then (if seenhigh outputpin
            then Inr (write_equations_pin_name_value (name outputpin) 1 pol @ write_equations_newline)
            else if seenlow outputpin
            then Inr (write_equations_pin_name_value (name outputpin) 0 pol @ write_equations_newline)
            else Inr [])
      else
        (let simplified_terms_pos =
               simplify_minterms boolexprsimplifier (pinnames (depends outputpin))
                 (posminterms outputpin) (dontcareterms outputpin);
             simplified_terms_neg =
               simplify_minterms boolexprsimplifier (pinnames (depends outputpin))
                 (negminterms outputpin) (dontcareterms outputpin)
         in case write_simplified_equations (name outputpin) (pinnames (depends outputpin))
                   simplified_terms_pos simplified_terms_neg pol of
              Inl e \<Rightarrow> Inl e
            | Inr lines \<Rightarrow> Inr (lines @ write_equations_newline)))"

definition write_equations_pin_output_equations :: "simplifier \<Rightarrow> polarity \<Rightarrow> Pin list
    \<Rightarrow> error + string list" where
  "write_equations_pin_output_equations boolexprsimplifier pol outputpins =
     (case map_each (write_equations_pin_output_equation boolexprsimplifier pol) outputpins of
        Inl e \<Rightarrow> Inl e
      | Inr liness \<Rightarrow> Inr (write_equations_section_title ''Output equations'' @ concat liness))"

text \<open>The body of the loop of \<^verbatim>\<open>write_equations_pin_output_enable_equations\<close>, for one pin.\<close>

definition write_equations_pin_output_enable_equation :: "simplifier \<Rightarrow> polarity \<Rightarrow> Pin
    \<Rightarrow> error + string list" where
  "write_equations_pin_output_enable_equation boolexprsimplifier oepol outputpin =
     (if bitmap (oe_depends outputpin) = 0
      then (if seenhigh outputpin \<or> seenlow outputpin
            then Inr (write_equations_pin_name_value (name outputpin @ ''.oe'') 1 oepol
                      @ write_equations_newline)
            else Inr (write_equations_pin_name_value (name outputpin @ ''.oe'') 0 oepol
                      @ write_equations_newline))
      else
        (let simplified_terms_pos =
               simplify_minterms boolexprsimplifier (pinnames (oe_depends outputpin))
                 (oeposminterms outputpin) [];
             simplified_terms_neg =
               simplify_minterms boolexprsimplifier (pinnames (oe_depends outputpin))
                 (oenegminterms outputpin) []
         in case write_simplified_equations (name outputpin @ ''.oe'')
                   (pinnames (oe_depends outputpin))
                   simplified_terms_pos simplified_terms_neg oepol of
              Inl e \<Rightarrow> Inl e
            | Inr lines \<Rightarrow> Inr (lines @ write_equations_newline)))"

definition write_equations_pin_output_enable_equations :: "simplifier \<Rightarrow> polarity \<Rightarrow> Pin list
    \<Rightarrow> error + string list" where
  "write_equations_pin_output_enable_equations boolexprsimplifier oepol outputpins =
     (case map_each (write_equations_pin_output_enable_equation boolexprsimplifier oepol) outputpins of
        Inl e \<Rightarrow> Inl e
      | Inr liness \<Rightarrow>
         Inr (write_equations_section_title ''Output enable equations'' @ concat liness))"

text \<open>
  The main program for one run: the analysis, then the four sections of the equations
  file. The inputs are the profile, the dump, the two polarity options, the stem of the
  dump's file name, and the two things the run takes from its surroundings: the minimizer
  and the local date.
\<close>

definition equations_file :: "simplifier \<Rightarrow> string \<Rightarrow> Device \<Rightarrow> int list \<Rightarrow> polarity \<Rightarrow> polarity
    \<Rightarrow> string \<Rightarrow> error + string" where
  "equations_file boolexprsimplifier date device dumpdata pol oepol stem =
     (case analyse device dumpdata of Inl e \<Rightarrow> Inl e
      | Inr outputpins \<Rightarrow>
         (case write_equations_pin_aliases device outputpins of Inl e \<Rightarrow> Inl e
          | Inr aliases \<Rightarrow>
             (case write_equations_pin_output_equations boolexprsimplifier pol outputpins of
                Inl e \<Rightarrow> Inl e
              | Inr eqs \<Rightarrow>
                 (case write_equations_pin_output_enable_equations boolexprsimplifier oepol
                         outputpins of
                    Inl e \<Rightarrow> Inl e
                  | Inr oes \<Rightarrow>
                     Inr (concat (write_equations_file_header stem (pal_device_name device) date
                                  @ aliases @ eqs @ oes))))))"

subsection \<open>Notions used to state the properties\<close>

text \<open>The number of 1-bits of a non-negative integer.\<close>

function popcount :: "int \<Rightarrow> nat" where
  "popcount m = (if m \<le> 0 then 0 else (if odd m then 1 else 0) + popcount (m div 2))"
  by pat_completeness auto
termination
  by (relation "measure nat") auto

declare popcount.simps [simp del]

text \<open>The positions of the 1-bits of a non-negative integer, ascending.\<close>

definition bitpos_list :: "int \<Rightarrow> nat list" where
  "bitpos_list M = filter (bit M) [0 ..< nat M]"

text \<open>
  An output pin is driven at an address when toggling its hi-z probe does not change its
  bit in the dump.
\<close>

definition driven :: "int list \<Rightarrow> Pin \<Rightarrow> int \<Rightarrow> bool" where
  "driven dumpdata outputpin a \<longleftrightarrow>
     (dumpdata ! nat a) AND bitmask outputpin
       = (dumpdata ! nat (a XOR hizprobebitmask outputpin)) AND bitmask outputpin"

subsection \<open>Two small devices\<close>

text \<open>
  A device with two address bits and two outputs. Pin 12 is bidirectional: address bit 1 is
  its probe. Pin 13 has no probe. In the dump pin 12 is never driven and pin 13 follows
  pin 12.
\<close>

definition demo_device :: Device where
  "demo_device = \<lparr>pal_device_name = ''demo'', eprom_address_width = 2, eprom_data_width = 2,
     eprom_hiz_probe_pins = 1, eprom_address_pins = [2, 12], eprom_data_pins = [12, 13],
     pal_pin_names = [(2, ''I''), (12, ''B''), (13, ''O'')], pal_output_pins = 2\<rparr>"

definition demo_dump :: "int list" where
  "demo_dump = [0, 0, 3, 3]"

text \<open>
  A device with inputs \<open>I\<close> (address bit 0) and \<open>E\<close> (address bit 1) and one output \<open>O\<close>
  with its probe on address bit 2. In the dump \<open>O\<close> follows \<open>I\<close> while \<open>E\<close> is high and is
  not driven while \<open>E\<close> is low.
\<close>

definition oe_device :: Device where
  "oe_device = \<lparr>pal_device_name = ''demo'', eprom_address_width = 3, eprom_data_width = 1,
     eprom_hiz_probe_pins = 1, eprom_address_pins = [2, 3, 12], eprom_data_pins = [12],
     pal_pin_names = [(2, ''I''), (3, ''E''), (12, ''O'')], pal_output_pins = 1\<rparr>"

definition oe_dump :: "int list" where
  "oe_dump = [0, 0, 0, 1, 1, 1, 0, 1]"

text \<open>
  A device without probe pins: input \<open>I\<close> on the one address bit, output \<open>O\<close> on data bit 0
  of an 8-bit word. In the first dump \<open>O\<close> follows \<open>I\<close>, in the second it is its inverse.
\<close>

definition buffer_device :: Device where
  "buffer_device = \<lparr>pal_device_name = ''demo'', eprom_address_width = 1, eprom_data_width = 8,
     eprom_hiz_probe_pins = 0, eprom_address_pins = [2], eprom_data_pins = [12],
     pal_pin_names = [(2, ''I''), (12, ''O'')], pal_output_pins = 1\<rparr>"

definition buffer_dump :: "int list" where
  "buffer_dump = [0, 1]"

definition inverter_dump :: "int list" where
  "inverter_dump = [1, 0]"

text \<open>
  A minimizer that does not minimize, for running the writers: one product for each
  on-minterm, with every input in its care mask.
\<close>

definition each_minterm :: simplifier where
  "each_minterm k on dc =
     (if on = [] then SBool False else SProducts (map (\<lambda>m. (m, 2 ^ k - 1)) on))"

definition demo_pins :: "Pin list" where
  "demo_pins = (case analyse demo_device demo_dump of Inr ps \<Rightarrow> ps | Inl e \<Rightarrow> [])"




subsection \<open>Notions used to state the properties of the scan\<close>

text \<open>
  The hi-z state of an output pin at an address, as the scan computes it: a pin without
  probe is never hi-z; a pin with a probe is hi-z when toggling the probe changes its bit.
\<close>

definition is_hiz :: "int list \<Rightarrow> Pin \<Rightarrow> int \<Rightarrow> bool" where
  "is_hiz dumpdata outputpin a \<longleftrightarrow>
     hizprobebitpos outputpin \<noteq> None \<and>
     (dumpdata ! nat a) AND bitmask outputpin
       \<noteq> (dumpdata ! nat (a XOR hizprobebitmask outputpin)) AND bitmask outputpin"

text \<open>
  The address pairs \<open>(a, a OR mask)\<close> of an input pin that the scan looks at for an output
  pin: the input's bit is clear in \<open>a\<close> and the output's probe bit is clear in both
  addresses.
\<close>

definition scanned_pair :: "nat \<Rightarrow> Pin \<Rightarrow> Pin \<Rightarrow> int \<Rightarrow> bool" where
  "scanned_pair A inputpin outputpin a \<longleftrightarrow>
     0 \<le> a \<and> a < 2 ^ A \<and> a AND bitmask inputpin = 0 \<and>
     a AND hizprobebitmask outputpin = 0 \<and>
     (a OR bitmask inputpin) AND hizprobebitmask outputpin = 0"

definition oe_pair :: "int list \<Rightarrow> Pin \<Rightarrow> Pin \<Rightarrow> int \<Rightarrow> bool" where
  "oe_pair dumpdata inputpin outputpin a \<longleftrightarrow>
     is_hiz dumpdata outputpin a \<noteq> is_hiz dumpdata outputpin (a OR bitmask inputpin)"

definition value_pair :: "int list \<Rightarrow> Pin \<Rightarrow> Pin \<Rightarrow> int \<Rightarrow> bool" where
  "value_pair dumpdata inputpin outputpin a \<longleftrightarrow>
     \<not> is_hiz dumpdata outputpin a \<and> \<not> is_hiz dumpdata outputpin (a OR bitmask inputpin) \<and>
     (dumpdata ! nat a) AND bitmask outputpin
       \<noteq> (dumpdata ! nat (a OR bitmask inputpin)) AND bitmask outputpin"

text \<open>What the scan does to one output pin, for one input pin at one address.\<close>

definition scan_step :: "int list \<Rightarrow> int \<times> Pin \<Rightarrow> Pin \<Rightarrow> error + Pin" where
  "scan_step dumpdata x outputpin =
     (let a = fst x; inputpin = snd x
      in if a AND bitmask inputpin > 0 then Inr outputpin
         else
           (case py_index dumpdata a of Inl e \<Rightarrow> Inl e
            | Inr d0 \<Rightarrow>
               (case py_index dumpdata (a OR bitmask inputpin) of Inl e \<Rightarrow> Inl e
                | Inr d1 \<Rightarrow>
                   scan_outputpin dumpdata inputpin a (a OR bitmask inputpin) d0 d1 outputpin)))"

text \<open>The fields of a pin that the scan and the minterm builder never change.\<close>

definition fixed_fields :: "Pin \<Rightarrow> string \<times> int \<times> nat option \<times> int" where
  "fixed_fields p = (name p, bitmask p, hizprobebitpos p, hizprobebitmask p)"

text \<open>
  A dependency set is consistent, with respect to the input pins: its two lists are parallel
  and free of duplicates, each entry is the mask and the name of an input pin, and the
  bitmap is the disjunction of the masks.
\<close>

definition dependencies_ok :: "Pin list \<Rightarrow> PinDependencies \<Rightarrow> bool" where
  "dependencies_ok ips d \<longleftrightarrow>
     length (pinnames d) = length (bits d) \<and> distinct (bits d) \<and> distinct (pinnames d) \<and>
     set (zip (bits d) (pinnames d)) \<subseteq> (\<lambda>ip. (bitmask ip, name ip)) ` set ips \<and>
     bitmap d = foldr (OR) (bits d) 0"

text \<open>What the whole scan does to one output pin.\<close>

definition scan_invariant :: "nat \<Rightarrow> int list \<Rightarrow> Pin list \<Rightarrow> Pin \<Rightarrow> (int \<times> Pin) list \<Rightarrow> Pin \<Rightarrow> bool" where
  "scan_invariant A dumpdata ips op0 pre op \<longleftrightarrow>
     fixed_fields op = fixed_fields op0 \<and>
     set (pinnames (oe_depends op)) =
       set (pinnames (oe_depends op0)) \<union>
       {name ip | a ip. (a, ip) \<in> set pre \<and> scanned_pair A ip op0 a \<and> oe_pair dumpdata ip op0 a} \<and>
     set (pinnames (depends op)) =
       set (pinnames (depends op0)) \<union>
       {name ip | a ip. (a, ip) \<in> set pre \<and> scanned_pair A ip op0 a \<and> value_pair dumpdata ip op0 a} \<and>
     dependencies_ok ips (oe_depends op) \<and> dependencies_ok ips (depends op) \<and>
     (bitmap (depends op) \<noteq> 0 \<longrightarrow> seenlow op \<or> seenhigh op) \<and>
     dontcareterms op = dontcareterms op0 \<and> negminterms op = negminterms op0 \<and>
     posminterms op = posminterms op0 \<and> oenegminterms op = oenegminterms op0 \<and>
     oeposminterms op = oeposminterms op0"

text \<open>The pin lists of the runs on the small devices.\<close>

definition result_pins :: "error + Pin list \<Rightarrow> Pin list" where
  "result_pins r = (case r of Inr ps \<Rightarrow> ps | Inl e \<Rightarrow> [])"

definition oe_inputpins :: "Pin list" where
  "oe_inputpins = result_pins (build_inputpins_configuration oe_device)"

definition oe_outputpins :: "Pin list" where
  "oe_outputpins = result_pins (build_outputpins_configuration oe_device)"

definition oe_scanned :: "Pin list" where
  "oe_scanned = result_pins (build_outputpins_dependencies oe_device oe_dump oe_inputpins oe_outputpins)"

definition oe_pins :: "Pin list" where
  "oe_pins = result_pins (analyse oe_device oe_dump)"

text \<open>
  A profile in which two input pins have the same name, with one output without probe. In
  the dump the output follows address bit 0 alone.
\<close>

definition dup_device :: Device where
  "dup_device = \<lparr>pal_device_name = ''demo'', eprom_address_width = 2, eprom_data_width = 1,
     eprom_hiz_probe_pins = 0, eprom_address_pins = [2, 3], eprom_data_pins = [12],
     pal_pin_names = [(2, ''I''), (3, ''I''), (12, ''O'')], pal_output_pins = 1\<rparr>"

definition dup_dump :: "int list" where
  "dup_dump = [0, 1, 0, 1]"

definition dup_inputpins :: "Pin list" where
  "dup_inputpins = result_pins (build_inputpins_configuration dup_device)"

definition dup_outputpins :: "Pin list" where
  "dup_outputpins = result_pins (build_outputpins_configuration dup_device)"

definition dup_scanned :: "Pin list" where
  "dup_scanned = result_pins (build_outputpins_dependencies dup_device dup_dump dup_inputpins dup_outputpins)"

section \<open>Properties\<close>

subsection \<open>The runs on the small devices\<close>

lemma demo_pins_eq:
  "demo_pins =
    [new_Pin\<lparr>name := ''B'', number := 12, bitpos := 0, bitmask := 1,
       hizprobebitpos := Some 1, hizprobebitmask := 2\<rparr>,
     new_Pin\<lparr>name := ''O'', number := 13, bitpos := 1, bitmask := 2,
       hizprobebitpos := None, hizprobebitmask := 0, seenlow := True, seenhigh := True,
       depends := \<lparr>bitmap = 2, bits = [2], pinnames = [''B'']\<rparr>,
       dontcareterms := [0, 1]\<rparr>]"
  by code_simp

lemma oe_inputpins_eq:
  "oe_inputpins = [new_Pin\<lparr>name := ''I'', number := 2, bitpos := 0, bitmask := 1\<rparr>,
                   new_Pin\<lparr>name := ''E'', number := 3, bitpos := 1, bitmask := 2\<rparr>,
                   new_Pin\<lparr>name := ''O'', number := 12, bitpos := 2, bitmask := 4\<rparr>]"
  by code_simp

lemma oe_outputpins_eq:
  "oe_outputpins = [new_Pin\<lparr>name := ''O'', number := 12, bitpos := 0, bitmask := 1,
                      hizprobebitpos := Some 2, hizprobebitmask := 4\<rparr>]"
  by code_simp

lemma oe_scanned_eq:
  "oe_scanned = [new_Pin\<lparr>name := ''O'', number := 12, bitpos := 0, bitmask := 1,
                      hizprobebitpos := Some 2, hizprobebitmask := 4,
                      seenlow := True, seenhigh := True,
                      depends := \<lparr>bitmap = 1, bits = [1], pinnames = [''I'']\<rparr>,
                      oe_depends := \<lparr>bitmap = 2, bits = [2], pinnames = [''E'']\<rparr>\<rparr>]"
  by code_simp

lemma oe_pins_eq:
  "oe_pins = [new_Pin\<lparr>name := ''O'', number := 12, bitpos := 0, bitmask := 1,
                      hizprobebitpos := Some 2, hizprobebitmask := 4,
                      seenlow := True, seenhigh := True,
                      depends := \<lparr>bitmap = 1, bits = [1], pinnames = [''I'']\<rparr>,
                      oe_depends := \<lparr>bitmap = 2, bits = [2], pinnames = [''E'']\<rparr>,
                      negminterms := [0], posminterms := [1],
                      oenegminterms := [0], oeposminterms := [1]\<rparr>]"
  by code_simp

lemma oe_runs:
  "build_inputpins_configuration oe_device = Inr oe_inputpins"
  "build_outputpins_configuration oe_device = Inr oe_outputpins"
  "build_outputpins_dependencies oe_device oe_dump oe_inputpins oe_outputpins = Inr oe_scanned"
  "analyse oe_device oe_dump = Inr oe_pins"
  by code_simp+

lemma dup_runs:
  "build_inputpins_configuration dup_device = Inr dup_inputpins"
  "build_outputpins_configuration dup_device = Inr dup_outputpins"
  "build_outputpins_dependencies dup_device dup_dump dup_inputpins dup_outputpins = Inr dup_scanned"
  by code_simp+

lemma dup_inputpins_eq:
  "dup_inputpins = [new_Pin\<lparr>name := ''I'', number := 2, bitpos := 0, bitmask := 1\<rparr>,
                    new_Pin\<lparr>name := ''I'', number := 3, bitpos := 1, bitmask := 2\<rparr>]"
  by code_simp

lemma dup_outputpins_eq:
  "dup_outputpins = [new_Pin\<lparr>name := ''O'', number := 12, bitpos := 0, bitmask := 1,
                      hizprobebitpos := None, hizprobebitmask := 0\<rparr>]"
  by code_simp

lemma dup_scanned_eq:
  "dup_scanned = [new_Pin\<lparr>name := ''O'', number := 12, bitpos := 0, bitmask := 1,
                      hizprobebitpos := None, hizprobebitmask := 0,
                      seenlow := True, seenhigh := True,
                      depends := \<lparr>bitmap = 1, bits = [1], pinnames = [''I'']\<rparr>\<rparr>]"
  by code_simp

lemma demo_analyse: "analyse demo_device demo_dump = Inr demo_pins"
  unfolding demo_pins_def by code_simp

subsection \<open>Bits of integers\<close>

lemma bit_int_ge: "0 \<le> (M::int) \<Longrightarrow> bit M j \<Longrightarrow> 2 ^ j \<le> M"
proof (rule ccontr)
  assume a: "0 \<le> M" "bit M j" "\<not> 2 ^ j \<le> M"
  then have "M div 2 ^ j = 0" by (simp add: div_pos_pos_trivial)
  with a(2) show False by (simp add: bit_iff_odd)
qed

lemma imb_aux:
  "0 \<le> M \<Longrightarrow> M < 2 ^ L \<Longrightarrow>
   iterate_mask_bits M (2 ^ i) acc = acc @ map (\<lambda>p. 2 ^ p) (filter (bit M) [i ..< L])"
proof (induction "L - i" arbitrary: i acc)
  case 0
  then have "L \<le> i" by simp
  then have "(2::int) ^ L \<le> 2 ^ i" by simp
  with 0 have "\<not> (2 ^ i \<le> M)" by linarith
  then show ?case using \<open>L \<le> i\<close>
    by (subst iterate_mask_bits.simps) simp
next
  case (Suc k)
  then have il: "i < L" by simp
  have up: "[i ..< L] = i # [Suc i ..< L]" using il by (simp add: upt_conv_Cons)
  have andbit: "M AND 2 ^ i \<noteq> 0 \<longleftrightarrow> bit M i"
    by (simp add: and_exp_eq_0_iff_not_bit)
  show ?case
  proof (cases "2 ^ i \<le> M")
    case True
    have "iterate_mask_bits M (2 ^ i) acc =
          iterate_mask_bits M (2 ^ Suc i) (if bit M i then acc @ [2 ^ i] else acc)"
      using True andbit by (subst iterate_mask_bits.simps) (simp add: push_bit_eq_mult mult.commute)
    also have "\<dots> = (if bit M i then acc @ [2 ^ i] else acc) @ map (\<lambda>p. 2 ^ p) (filter (bit M) [Suc i ..< L])"
      using Suc.hyps(1)[of "Suc i"] Suc.hyps(2) Suc.prems by simp
    finally show ?thesis using up by simp
  next
    case False
    then have lt: "M < 2 ^ i" by simp
    have "\<not> bit M j" if "i \<le> j" for j
    proof
      assume "bit M j"
      then have "2 ^ j \<le> M" using Suc.prems(1) by (simp add: bit_int_ge)
      moreover have "(2::int) ^ i \<le> 2 ^ j" using that by simp
      ultimately show False using lt by linarith
    qed
    then have "filter (bit M) [i ..< L] = []"
      by (auto simp: filter_empty_conv)
    then show ?thesis using False
      by (subst iterate_mask_bits.simps) simp
  qed
qed

lemma combine_bit:
  "bit (iterate_mask_combine (map (\<lambda>p. 2 ^ p) ps) n (2 ^ s) r) i \<longleftrightarrow>
     bit r i \<or> (\<exists>j < length ps. ps ! j = i \<and> bit n (s + j))"
proof (induction ps arbitrary: s r)
  case Nil
  then show ?case by simp
next
  case (Cons p ps)
  have andbit: "n AND 2 ^ s \<noteq> 0 \<longleftrightarrow> bit n s"
    by (simp add: and_exp_eq_0_iff_not_bit)
  have ih: "bit (iterate_mask_combine (map (\<lambda>p. 2 ^ p) ps) n (2 ^ Suc s) r') i \<longleftrightarrow>
     bit r' i \<or> (\<exists>j < length ps. ps ! j = i \<and> bit n (Suc s + j))" for r'
    using Cons.IH[of "Suc s" r'] by simp
  have ex: "(\<exists>j < length (p # ps). (p # ps) ! j = i \<and> bit n (s + j)) \<longleftrightarrow>
      (p = i \<and> bit n s) \<or> (\<exists>j < length ps. ps ! j = i \<and> bit n (Suc s + j))"
    by (auto simp: less_Suc_eq_0_disj)
  show ?case
    unfolding ex
    using ih andbit
    by (auto simp: push_bit_eq_mult mult.commute bit_or_iff bit_exp_iff)
qed

lemma minterm_bit:
  "bit (build_outputpin_minterm_loop (map (\<lambda>p. 2 ^ p) ps) a s m) j \<longleftrightarrow>
     bit m j \<or> (s \<le> j \<and> j - s < length ps \<and> bit a (ps ! (j - s)))"
proof (induction ps arbitrary: s m)
  case Nil
  then show ?case by simp
next
  case (Cons p ps)
  have andbit: "a AND 2 ^ p \<noteq> 0 \<longleftrightarrow> bit a p"
    by (simp add: and_exp_eq_0_iff_not_bit)
  have step: "bit (build_outputpin_minterm_loop (map (\<lambda>p. 2 ^ p) (p # ps)) a s m) j \<longleftrightarrow>
      (bit m j \<or> (bit a p \<and> j = s)) \<or> (Suc s \<le> j \<and> j - Suc s < length ps \<and> bit a (ps ! (j - Suc s)))"
    using andbit by (simp add: Cons.IH bit_or_iff bit_exp_iff)
  consider "j < s" | "j = s" | "s < j" by linarith
  then show ?case
  proof cases
    case 1 then show ?thesis unfolding step by auto
  next
    case 2 then show ?thesis unfolding step by auto
  next
    case 3
    then have "j - s = Suc (j - Suc s)" by simp
    then show ?thesis unfolding step using 3 by auto
  qed
qed


lemma int_less_two_power: "(M::int) < 2 ^ nat M"
proof (cases "0 \<le> M")
  case True
  have "nat M < 2 ^ nat M" by (rule less_exp)
  then have "int (nat M) < int (2 ^ nat M)" by (simp only: of_nat_less_iff)
  then show ?thesis using True by simp
next
  case False
  then have "M < 0" by simp
  also have "(0::int) < 2 ^ nat M" by simp
  finally show ?thesis .
qed

lemma bit_less_nat: "0 \<le> (M::int) \<Longrightarrow> bit M j \<Longrightarrow> j < nat M"
proof -
  assume a: "0 \<le> M" "bit M j"
  then have "2 ^ j \<le> M" by (rule bit_int_ge)
  also have "M < 2 ^ nat M" by (rule int_less_two_power)
  finally show ?thesis by simp
qed

lemma bitpos_list_props:
  assumes "0 \<le> M"
  shows "set (bitpos_list M) = {i. bit M i}" "sorted_wrt (<) (bitpos_list M)" "distinct (bitpos_list M)"
proof -
  show "set (bitpos_list M) = {i. bit M i}"
    using assms by (auto simp: bitpos_list_def bit_less_nat)
  show "sorted_wrt (<) (bitpos_list M)"
    unfolding bitpos_list_def by (rule sorted_wrt_filter) (simp add: sorted_wrt_upt)
  show "distinct (bitpos_list M)"
    unfolding bitpos_list_def by simp
qed

lemma iterate_mask_bits_eq:
  "0 \<le> M \<Longrightarrow> iterate_mask_bits M 1 [] = map (\<lambda>p. 2 ^ p) (bitpos_list M)"
  using imb_aux[of M "nat M" 0 "[]"] int_less_two_power[of M]
  by (simp add: bitpos_list_def)

lemma finite_bits_nonneg: "0 \<le> (M::int) \<Longrightarrow> finite {i. bit M i}"
  by (rule finite_subset[of _ "{..< nat M}"]) (auto simp: bit_less_nat)

lemma popcount_card: "0 \<le> M \<Longrightarrow> popcount M = card {i. bit M i}"
proof (induction M rule: popcount.induct)
  case (1 m)
  show ?case
  proof (cases "m \<le> 0")
    case True
    with 1 have "m = 0" by simp
    have c0: "card {i. bit (0::int) i} = 0"
    proof -
      have "{i. bit (0::int) i} = {}" by auto
      then show ?thesis by (simp only: card.empty)
    qed
    have p0: "popcount 0 = 0" by (subst popcount.simps) simp
    show ?thesis unfolding \<open>m = 0\<close> using c0 p0 by (simp only:)
  next
    case False
    then have pos: "0 < m" by simp
    have ih: "popcount (m div 2) = card {i. bit (m div 2) i}"
      using 1 False by simp
    have split: "{i. bit m i} = (if odd m then {0} else {}) \<union> Suc ` {i. bit (m div 2) i}"
    proof (rule set_eqI)
      fix i show "i \<in> {i. bit m i} \<longleftrightarrow> i \<in> (if odd m then {0} else {}) \<union> Suc ` {i. bit (m div 2) i}"
        by (cases i) (auto simp: bit_0 bit_Suc)
    qed
    have fin: "finite {i. bit (m div 2) i}"
      using pos by (intro finite_bits_nonneg) simp
    have "card {i. bit m i} = card (if odd m then {0::nat} else {}) + card (Suc ` {i. bit (m div 2) i})"
      unfolding split by (rule card_Un_disjoint) (use fin in auto)
    also have "card (Suc ` {i. bit (m div 2) i}) = card {i. bit (m div 2) i}"
      by (rule card_image) simp
    finally show ?thesis
      using False ih by (subst popcount.simps) simp
  qed
qed

lemma length_bitpos_list: "0 \<le> M \<Longrightarrow> length (bitpos_list M) = popcount M"
  using bitpos_list_props[of M] by (simp add: popcount_card distinct_card[symmetric])



lemma combine_bit0:
  "bit (iterate_mask_combine (map (\<lambda>p. 2 ^ p) ps) n 1 0) i \<longleftrightarrow>
     (\<exists>j < length ps. ps ! j = i \<and> bit n j)"
  using combine_bit[of ps n 0 0 i] by simp

lemma minterm_bit0:
  "bit (build_outputpin_minterm_loop (map (\<lambda>p. 2 ^ p) ps) a 0 0) j \<longleftrightarrow>
     j < length ps \<and> bit a (ps ! j)"
  using minterm_bit[of ps a 0 0 j] by simp

lemma minterm_nonneg:
  "0 \<le> m \<Longrightarrow> 0 \<le> build_outputpin_minterm_loop bs a s m"
  by (induction bs arbitrary: s m) simp_all

lemma combine_nonneg:
  "0 \<le> r \<Longrightarrow> \<forall>b \<in> set bs. 0 \<le> b \<Longrightarrow> 0 \<le> iterate_mask_combine bs n s r"
  by (induction bs arbitrary: s r) simp_all

lemma int_less_power_if_no_high_bits:
  assumes "0 \<le> (n::int)" and "\<And>j. bit n j \<Longrightarrow> j < k"
  shows "n < 2 ^ k"
proof -
  have "take_bit k n = n"
    by (rule bit_eqI) (auto simp: bit_take_bit_iff assms(2))
  then show ?thesis using assms(1) by (simp add: take_bit_int_eq_self_iff)
qed

lemma minterm_bound:
  "build_outputpin_minterm_loop (map (\<lambda>p. 2 ^ p) ps) a 0 0 < 2 ^ length ps"
  by (rule int_less_power_if_no_high_bits) (simp_all add: minterm_nonneg minterm_bit0)

lemma extract_deposit:
  assumes "distinct ps" "0 \<le> n" "n < 2 ^ length ps"
  shows "build_outputpin_minterm_loop (map (\<lambda>p. 2 ^ p) ps)
           (iterate_mask_combine (map (\<lambda>p. 2 ^ p) ps) n 1 0) 0 0 = n"
proof (rule bit_eqI)
  fix j
  have small: "j < length ps" if "bit n j"
  proof -
    have "2 ^ j \<le> n" using assms(2) that by (rule bit_int_ge)
    then have "(2::int) ^ j < 2 ^ length ps" using assms(3) by linarith
    then show ?thesis by simp
  qed
  have "(\<exists>j' < length ps. ps ! j' = ps ! j \<and> bit n j') \<longleftrightarrow> bit n j" if "j < length ps"
    using that assms(1) by (auto simp: nth_eq_iff_index_eq)
  then show "bit (build_outputpin_minterm_loop (map (\<lambda>p. 2 ^ p) ps)
           (iterate_mask_combine (map (\<lambda>p. 2 ^ p) ps) n 1 0) 0 0) j \<longleftrightarrow> bit n j"
    using small by (auto simp: minterm_bit0 combine_bit0)
qed

lemma deposit_extract:
  assumes "\<And>i. bit r i \<Longrightarrow> i \<in> set ps"
  shows "iterate_mask_combine (map (\<lambda>p. 2 ^ p) ps)
           (build_outputpin_minterm_loop (map (\<lambda>p. 2 ^ p) ps) r 0 0) 1 0 = r"
proof (rule bit_eqI)
  fix i
  show "bit (iterate_mask_combine (map (\<lambda>p. 2 ^ p) ps)
           (build_outputpin_minterm_loop (map (\<lambda>p. 2 ^ p) ps) r 0 0) 1 0) i \<longleftrightarrow> bit r i"
    using assms[of i] by (auto simp: minterm_bit0 combine_bit0 in_set_conv_nth)
qed

lemma submask_iff_bits: "r AND M = r \<longleftrightarrow> (\<forall>i. bit r i \<longrightarrow> bit M i)" for r M :: int
  by (auto simp: bit_eq_iff bit_and_iff)

lemma iterate_mask_eq:
  "1 \<le> M \<Longrightarrow> iterate_mask M =
     map (\<lambda>n. iterate_mask_combine (map (\<lambda>p. 2 ^ p) (bitpos_list M)) (int n) 1 0)
       [0 ..< 2 ^ popcount M]"
  by (simp add: iterate_mask_def iterate_mask_bits_eq length_bitpos_list Let_def)

lemma set_iterate_mask:
  assumes "1 \<le> M"
  shows "set (iterate_mask M) = {r. r AND M = r}"
proof -
  let ?ps = "bitpos_list M"
  have M0: "0 \<le> M" using assms by simp
  have setps: "set ?ps = {i. bit M i}" using M0 by (rule bitpos_list_props)
  have len: "length ?ps = popcount M" using M0 by (rule length_bitpos_list)
  show ?thesis
  proof (intro set_eqI iffI)
    fix r assume "r \<in> set (iterate_mask M)"
    then obtain n where r: "r = iterate_mask_combine (map (\<lambda>p. 2 ^ p) ?ps) (int n) 1 0"
      using assms by (auto simp: iterate_mask_eq)
    have "bit M i" if "bit r i" for i
    proof -
      from that obtain j where "j < length ?ps" "?ps ! j = i"
        unfolding r combine_bit0 by blast
      then have "i \<in> set ?ps" by (auto simp: in_set_conv_nth)
      then show ?thesis using setps by simp
    qed
    then show "r \<in> {r. r AND M = r}" by (simp add: submask_iff_bits)
  next
    fix r assume "r \<in> {r. r AND M = r}"
    then have sub: "\<And>i. bit r i \<Longrightarrow> i \<in> set ?ps" using setps by (simp add: submask_iff_bits)
    let ?n = "build_outputpin_minterm_loop (map (\<lambda>p. 2 ^ p) ?ps) r 0 0"
    have n0: "0 \<le> ?n" by (simp add: minterm_nonneg)
    have nk: "?n < 2 ^ popcount M" using minterm_bound[of ?ps r] len by simp
    define n' where "n' = nat ?n"
    have "int n' < int (2 ^ popcount M)" using nk n0 by (simp add: n'_def)
    then have n'k: "n' \<in> set [0 ..< 2 ^ popcount M]" by (simp only: of_nat_less_iff set_upt atLeastLessThan_iff) simp
    have "int n' = ?n" using n0 by (simp add: n'_def)
    then have "r = iterate_mask_combine (map (\<lambda>p. 2 ^ p) ?ps) (int n') 1 0"
      using deposit_extract[OF sub] by simp
    then have "r \<in> (\<lambda>n. iterate_mask_combine (map (\<lambda>p. 2 ^ p) ?ps) (int n) 1 0) ` set [0 ..< 2 ^ popcount M]"
      using n'k by (rule image_eqI)
    then show "r \<in> set (iterate_mask M)"
      unfolding iterate_mask_eq[OF assms] set_map .
  qed
qed

lemma encode_iterate_mask:
  assumes "1 \<le> M"
  shows "map (\<lambda>r. build_outputpin_minterm_loop (map (\<lambda>p. 2 ^ p) (bitpos_list M)) r 0 0) (iterate_mask M)
         = map int [0 ..< 2 ^ popcount M]"
proof -
  have M0: "0 \<le> M" using assms by simp
  have len: "length (bitpos_list M) = popcount M" using M0 by (rule length_bitpos_list)
  have d: "distinct (bitpos_list M)" using M0 by (rule bitpos_list_props)
  show ?thesis
    unfolding iterate_mask_eq[OF assms] map_map
  proof (rule map_cong[OF refl])
    fix n assume "n \<in> set [0 ..< 2 ^ popcount M]"
    then have "int n < 2 ^ length (bitpos_list M)" using len by simp 
    then show "((\<lambda>r. build_outputpin_minterm_loop (map (\<lambda>p. 2 ^ p) (bitpos_list M)) r 0 0) \<circ>
          (\<lambda>n. iterate_mask_combine (map (\<lambda>p. 2 ^ p) (bitpos_list M)) (int n) 1 0)) n = int n"
      using extract_deposit[OF d, of "int n"] by simp
  qed
qed


lemma bit_foldr_or:
  "bit (foldr (OR) (map (\<lambda>p. 2 ^ p) ps) (0::int)) i \<longleftrightarrow> i \<in> set ps"
  by (induction ps) (auto simp: bit_or_iff bit_exp_iff)

lemma foldr_or_nonneg: "\<forall>b \<in> set bs. 0 \<le> b \<Longrightarrow> 0 \<le> foldr (OR) bs (0::int)"
  by (induction bs) simp_all

lemma bitpos_list_unique:
  assumes "sorted_wrt (<) ps" "0 \<le> M" "\<And>i. bit M i \<longleftrightarrow> i \<in> set ps"
  shows "ps = bitpos_list M"
proof (rule strict_sorted_equal)
  show "sorted_wrt (<) (bitpos_list M)" using assms(2) by (rule bitpos_list_props)
  show "sorted_wrt (<) ps" by (rule assms(1))
  show "set ps = set (bitpos_list M)"
    using bitpos_list_props(1)[OF assms(2)] assms(3) by auto
qed

lemma nonempty_bits_pos:
  assumes "0 \<le> (M::int)" "bit M i"
  shows "1 \<le> M"
proof -
  have "M \<noteq> 0" using assms(2) by auto
  then show ?thesis using assms(1) by simp
qed

lemma bit_foldr_or_general:
  "bit (foldr (OR) bs (0::int)) i \<longleftrightarrow> (\<exists>b \<in> set bs. bit b i)"
  by (induction bs) (auto simp: bit_or_iff)

lemma foldr_or_set_cong:
  assumes "set bs = set cs"
  shows "foldr (OR) bs (0::int) = foldr (OR) cs 0"
  by (rule bit_eqI) (simp add: bit_foldr_or_general assms)

lemma build_outputpin_minterm_fun:
  "build_outputpin_minterm d = (\<lambda>r. build_outputpin_minterm_loop (bits d) r 0 0)"
  by (rule ext) (simp add: build_outputpin_minterm_def)

subsection \<open>The sub-mask iteration\<close>

text \<open>
  Claim C5, as the code has it. For a bitmap \<open>M \<ge> 1\<close>, \<^verbatim>\<open>iterate_mask\<close> yields exactly
  the integers \<open>r\<close> whose 1-bits are a subset of the 1-bits of \<open>M\<close> (\<open>r AND M = r\<close>), each
  once, \<open>2 ^ popcount M\<close> values in all, and the \<open>n\<close>-th value yielded is the one whose
  minterm over the 1-bits of \<open>M\<close>, taken in ascending order, is \<open>n\<close>: the values come in
  the order \<open>0, 1, \<dots>, 2 ^ popcount M - 1\<close> of their encodings. For \<open>M < 1\<close>, and so for
  \<open>M = 0\<close>, nothing is yielded.
\<close>

theorem iterate_mask_submasks:
  "(M < 1 \<longrightarrow> iterate_mask M = []) \<and>
   (1 \<le> M \<longrightarrow>
      set (iterate_mask M) = {r. r AND M = r} \<and>
      length (iterate_mask M) = 2 ^ popcount M \<and>
      distinct (iterate_mask M) \<and>
      map (build_outputpin_minterm \<lparr>bitmap = M, bits = map (\<lambda>p. 2 ^ p) (bitpos_list M), pinnames = []\<rparr>)
        (iterate_mask M) = map int [0 ..< 2 ^ popcount M])"
proof (intro conjI impI)
  assume "M < 1"
  then show "iterate_mask M = []" by (simp add: iterate_mask_def)
next
  assume M: "1 \<le> M"
  then show "set (iterate_mask M) = {r. r AND M = r}" by (rule set_iterate_mask)
  show "length (iterate_mask M) = 2 ^ popcount M" by (simp add: iterate_mask_eq[OF M])
  have enc: "map (build_outputpin_minterm \<lparr>bitmap = M, bits = map (\<lambda>p. 2 ^ p) (bitpos_list M), pinnames = []\<rparr>)
        (iterate_mask M) = map int [0 ..< 2 ^ popcount M]"
    using encode_iterate_mask[OF M] M
    by (simp add: build_outputpin_minterm_fun)
  then show "map (build_outputpin_minterm \<lparr>bitmap = M, bits = map (\<lambda>p. 2 ^ p) (bitpos_list M), pinnames = []\<rparr>)
        (iterate_mask M) = map int [0 ..< 2 ^ popcount M]" .
  have "distinct (map int [0 ..< 2 ^ popcount M])"
    by (simp add: distinct_map inj_on_def)
  then have "distinct (map (build_outputpin_minterm \<lparr>bitmap = M, bits = map (\<lambda>p. 2 ^ p) (bitpos_list M), pinnames = []\<rparr>)
        (iterate_mask M))" by (simp only: enc)
  then show "distinct (iterate_mask M)" by (simp add: distinct_map)
qed

theorem iterate_mask_submasks_witness:
  "(1::int) \<le> 10 \<and> iterate_mask 10 = [0, 2, 8, 10] \<and>
   set (iterate_mask 10) = {r. r AND 10 = r} \<and>
   length (iterate_mask 10) = 2 ^ 2 \<and>
   map (build_outputpin_minterm \<lparr>bitmap = 10, bits = [2, 8], pinnames = []\<rparr>)
        (iterate_mask 10) = [0, 1, 2, 3]"
proof -
  have v: "iterate_mask 10 = [0, 2, 8, 10]" by code_simp
  have pc: "popcount 10 = 2" by code_simp
  have bp: "bitpos_list 10 = [1, 3]" by code_simp
  have up: "map int [0 ..< 4] = [0, 1, 2, 3]" by code_simp
  show ?thesis using iterate_mask_submasks[of 10] v up by (simp add: pc bp)
qed

text \<open>
  For the bitmap 0 the claim of C5 that 0 is always generated, and that \<open>2 ^ popcount M\<close>
  values are, fails: the generator returns at once.
\<close>

theorem iterate_mask_zero_counterexample:
  "0 \<notin> set (iterate_mask 0) \<and> length (iterate_mask 0) \<noteq> 2 ^ popcount 0"
  by (simp add: iterate_mask_def)

text \<open>
  Claim C10, for a dependency set that is not empty. The bits of the set are the masks
  \<open>2 ^ p\<close> of address bit positions \<open>p\<close>, strictly ascending, and the bitmap is their
  disjunction. Then for every \<open>n < 2 ^ popcount M\<close> the iteration over the bitmap \<open>M\<close>
  has an \<open>n\<close>-th value, and its minterm is \<open>n\<close>.
\<close>
theorem minterm_inverts_iteration:
  assumes "bits deps = map (\<lambda>p. 2 ^ p) ps" and "sorted_wrt (<) ps" and "ps \<noteq> []"
    and "bitmap deps = foldr (OR) (bits deps) 0"
    and "n < 2 ^ popcount (bitmap deps)"
  shows "n < length (iterate_mask (bitmap deps)) \<and>
         build_outputpin_minterm deps (iterate_mask (bitmap deps) ! n) = int n"
proof -
  let ?M = "bitmap deps"
  have M0: "0 \<le> ?M" unfolding assms(4) assms(1) by (rule foldr_or_nonneg) auto
  have bitM: "\<And>i. bit ?M i \<longleftrightarrow> i \<in> set ps" unfolding assms(4) assms(1) by (rule bit_foldr_or)
  have "bit ?M (hd ps)" using bitM assms(3) by simp
  then have M1: "1 \<le> ?M" using M0 nonempty_bits_pos by blast
  have ps: "ps = bitpos_list ?M" using assms(2) M0 bitM by (rule bitpos_list_unique)
  have len: "length (iterate_mask ?M) = 2 ^ popcount ?M" by (simp add: iterate_mask_eq[OF M1])
  have n: "n < length (iterate_mask ?M)" using assms(5) len by simp
  have "map (\<lambda>r. build_outputpin_minterm_loop (map (\<lambda>p. 2 ^ p) (bitpos_list ?M)) r 0 0) (iterate_mask ?M) ! n
        = map int [0 ..< 2 ^ popcount ?M] ! n"
    by (simp only: encode_iterate_mask[OF M1])
  then have "build_outputpin_minterm deps (iterate_mask ?M ! n) = int n"
    using n assms(5) ps assms(1) by (simp add: build_outputpin_minterm_def)
  with n show ?thesis by simp
qed

theorem minterm_inverts_iteration_witness:
  "bits \<lparr>bitmap = 10, bits = [2, 8], pinnames = [''a'', ''b'']\<rparr> = map (\<lambda>p. 2 ^ p) [1, 3] \<and>
   sorted_wrt (<) [1, 3 :: nat] \<and>
   (2 :: nat) < 2 ^ popcount (bitmap \<lparr>bitmap = 10, bits = [2, 8], pinnames = [''a'', ''b'']\<rparr>) \<and>
   2 < length (iterate_mask 10) \<and>
   build_outputpin_minterm \<lparr>bitmap = 10, bits = [2, 8], pinnames = [''a'', ''b'']\<rparr>
     (iterate_mask 10 ! 2) = 2"
proof -
  let ?d = "\<lparr>bitmap = 10, bits = [2, 8], pinnames = [''a'', ''b'']\<rparr>"
  have h1: "bits ?d = map (\<lambda>p. 2 ^ p) [1, 3]" by simp
  have h2: "sorted_wrt (<) [1, 3 :: nat]" by simp
  have h3: "[1, 3 :: nat] \<noteq> []" by simp
  have h4: "bitmap ?d = foldr (OR) (bits ?d) 0" by simp
  have pc: "popcount 10 = 2" by code_simp
  have h5: "(2 :: nat) < 2 ^ popcount (bitmap ?d)" by (simp add: pc)
  show ?thesis
    using minterm_inverts_iteration[OF h1 h2 h3 h4 h5] h1 h2 h5 by simp
qed

text \<open>
  For the empty dependency set the bitmap is 0 and \<open>n = 0\<close> is below \<open>2 ^ popcount 0 = 1\<close>,
  but the iteration over the bitmap yields nothing: there is no 0-th sub-address to encode.
\<close>

theorem minterm_inverts_iteration_counterexample:
  "bits new_PinDependencies = map (\<lambda>p. 2 ^ p) [] \<and>
   sorted_wrt (<) ([] :: nat list) \<and>
   bitmap new_PinDependencies = foldr (OR) (bits new_PinDependencies) 0 \<and>
   (0 :: nat) < 2 ^ popcount (bitmap new_PinDependencies) \<and>
   \<not> 0 < length (iterate_mask (bitmap new_PinDependencies))"
  by (simp add: new_PinDependencies_def iterate_mask_def)

subsection \<open>The relevance test and the effective output value\<close>

lemma py_index_in_range:
  "0 \<le> i \<Longrightarrow> i < int (length xs) \<Longrightarrow> py_index xs i = Inr (xs ! nat i)"
  by (simp add: py_index_def)

lemma in_range_iff_take_bit: "0 \<le> a \<and> a < 2 ^ n \<longleftrightarrow> take_bit n a = a" for a :: int
  by (auto simp: take_bit_int_eq_self_iff)

lemma or_in_range:
  fixes a b :: int
  assumes "0 \<le> a" "a < 2 ^ n" "0 \<le> b" "b < 2 ^ n"
  shows "0 \<le> a OR b \<and> a OR b < 2 ^ n"
proof -
  have "take_bit n a = a" "take_bit n b = b" using assms by (simp_all add: take_bit_int_eq_self)
  then have "take_bit n (a OR b) = a OR b" by (simp add: take_bit_or)
  then show ?thesis by (simp only: in_range_iff_take_bit)
qed

lemma xor_in_range:
  fixes a b :: int
  assumes "0 \<le> a" "a < 2 ^ n" "0 \<le> b" "b < 2 ^ n"
  shows "0 \<le> a XOR b \<and> a XOR b < 2 ^ n"
proof -
  have "take_bit n a = a" "take_bit n b = b" using assms by (simp_all add: take_bit_int_eq_self)
  then have "take_bit n (a XOR b) = a XOR b" by (simp add: take_bit_xor)
  then show ?thesis by (simp only: in_range_iff_take_bit)
qed

lemma submask_in_range:
  fixes s M :: int
  assumes "s AND M = s" "0 \<le> M" "M < 2 ^ n"
  shows "0 \<le> s \<and> s < 2 ^ n"
proof -
  have M: "take_bit n M = M" using assms by (simp add: take_bit_int_eq_self)
  have "take_bit n s = s"
  proof (rule bit_eqI)
    fix i
    have "bit s i \<Longrightarrow> bit M i" using assms(1) by (metis bit_and_iff)
    moreover have "bit M i \<Longrightarrow> i < n" using M by (metis bit_take_bit_iff)
    ultimately show "bit (take_bit n s) i \<longleftrightarrow> bit s i" by (auto simp: bit_take_bit_iff)
  qed
  then show ?thesis by (simp only: in_range_iff_take_bit)
qed

lemma bit_hiz_input_mask:
  "bit (hiz_input_mask device) i \<longleftrightarrow>
     eprom_address_width device - eprom_hiz_probe_pins device \<le> i \<and>
     i - (eprom_address_width device - eprom_hiz_probe_pins device) < eprom_hiz_probe_pins device"
  by (simp add: hiz_input_mask_def bit_push_bit_iff_int flip: mask_eq_exp_minus_1)
     (simp add: bit_mask_iff)

lemma hiz_input_mask_range:
  assumes "eprom_hiz_probe_pins device \<le> eprom_address_width device"
  shows "0 \<le> hiz_input_mask device \<and> hiz_input_mask device < 2 ^ eprom_address_width device"
proof -
  have nn: "0 \<le> hiz_input_mask device" by (simp add: hiz_input_mask_def)
  moreover have "hiz_input_mask device < 2 ^ eprom_address_width device"
  proof (rule int_less_power_if_no_high_bits[OF nn])
    fix j assume "bit (hiz_input_mask device) j"
    then show "j < eprom_address_width device"
      using assms by (auto simp: bit_hiz_input_mask)
  qed
  ultimately show ?thesis by simp
qed

lemma probe_mask_eq:
  assumes "eprom_hiz_probe_pins device \<le> eprom_address_width device"
  shows "((2 ^ eprom_address_width device - 1) XOR bm) AND hiz_input_mask device
         = hiz_input_mask device AND NOT bm"
proof (rule bit_eqI)
  fix i
  have "bit (hiz_input_mask device) i \<Longrightarrow> i < eprom_address_width device"
    using assms by (auto simp: bit_hiz_input_mask)
  then show "bit (((2 ^ eprom_address_width device - 1) XOR bm) AND hiz_input_mask device) i
      \<longleftrightarrow> bit (hiz_input_mask device AND NOT bm) i"
    by (auto simp: bit_and_iff bit_xor_iff bit_not_int_iff bit_mask_iff simp flip: mask_eq_exp_minus_1)
qed

lemma free_probe_setting_iff:
  "p AND (him AND NOT bm) = p \<longleftrightarrow> p AND him = p \<and> p AND bm = 0" for p him bm :: int
  by (auto simp: bit_eq_iff bit_and_iff bit_not_int_iff)

lemma check_input_combination_loop_eq:
  assumes "\<forall>p \<in> set ps. 0 \<le> epromaddr OR p \<and> epromaddr OR p < int (length dumpdata)"
  shows "check_input_combination_loop device dumpdata epromaddr ps =
     Inr (\<exists>p \<in> set ps.
            drop_bit (eprom_address_width device - eprom_hiz_probe_pins device)
              ((epromaddr OR p) AND hiz_input_mask device)
            = (dumpdata ! nat (epromaddr OR p)) AND NOT (hiz_data_mask device))"
  using assms by (induction ps) (auto simp: py_index_in_range Let_def)

text \<open>
  What the relevance test computes on a dump of \<open>2 ^ A\<close> words. The probe settings tried
  are the values \<^verbatim>\<open>iterate_mask\<close> yields for the free probe bits, the top \<open>H\<close> address
  bits that are not in the pin's dependency bitmap. When there is a free probe bit these are
  all the settings \<open>p\<close> of the free probe bits, and the test is true if and only if one of them
  makes the probe word equal to the masked data word. When there is none, no setting is
  tried, not even \<open>p = 0\<close>, and the test is false.
\<close>

lemma check_input_combination_is_relevent_eq:
  assumes "eprom_hiz_probe_pins device \<le> eprom_address_width device"
    and "eprom_hiz_probe_pins device \<le> eprom_data_width device"
    and "length dumpdata = 2 ^ eprom_address_width device"
    and "0 \<le> epromaddr" and "epromaddr < 2 ^ eprom_address_width device"
  shows "check_input_combination_is_relevent device dumpdata outputpin epromaddr =
     Inr (hiz_input_mask device AND NOT (bitmap (depends outputpin)) \<noteq> 0 \<and>
          (\<exists>p. p AND hiz_input_mask device = p \<and> p AND bitmap (depends outputpin) = 0 \<and>
               drop_bit (eprom_address_width device - eprom_hiz_probe_pins device)
                 ((epromaddr OR p) AND hiz_input_mask device)
               = (dumpdata ! nat (epromaddr OR p)) AND NOT (hiz_data_mask device)))"
proof -
  let ?A = "eprom_address_width device"
  let ?him = "hiz_input_mask device"
  let ?bm = "bitmap (depends outputpin)"
  let ?pm = "?him AND NOT ?bm"
  let ?match = "\<lambda>p. drop_bit (?A - eprom_hiz_probe_pins device) ((epromaddr OR p) AND ?him)
               = (dumpdata ! nat (epromaddr OR p)) AND NOT (hiz_data_mask device)"
  have him: "0 \<le> ?him" "?him < 2 ^ ?A" using hiz_input_mask_range[OF assms(1)] by simp_all
  have pm0: "0 \<le> ?pm" using him(1) by simp
  have pmA: "?pm < 2 ^ ?A"
    using submask_in_range[of ?pm ?him ?A] him by (simp add: and.assoc and.left_commute and.commute)
  have setim: "set (iterate_mask ?pm) = (if ?pm \<noteq> 0 then {r. r AND ?pm = r} else {})"
  proof (cases "?pm = 0")
    case True
    then show ?thesis by (simp add: iterate_mask_def)
  next
    case False
    then have "1 \<le> ?pm" using pm0 by linarith
    then show ?thesis using False by (simp add: set_iterate_mask)
  qed
  have rng: "\<forall>p \<in> set (iterate_mask ?pm). 0 \<le> epromaddr OR p \<and> epromaddr OR p < int (length dumpdata)"
  proof
    fix p assume "p \<in> set (iterate_mask ?pm)"
    then have "p AND ?pm = p" using setim by (auto split: if_splits)
    then have "0 \<le> p \<and> p < 2 ^ ?A" using pm0 pmA by (rule submask_in_range)
    then show "0 \<le> epromaddr OR p \<and> epromaddr OR p < int (length dumpdata)"
      using or_in_range[of epromaddr ?A p] assms(3-5) by simp
  qed
  have "check_input_combination_is_relevent device dumpdata outputpin epromaddr =
        check_input_combination_loop device dumpdata epromaddr (iterate_mask ?pm)"
    using assms(1,2) by (simp add: check_input_combination_is_relevent_def probe_mask_eq)
  also have "\<dots> = Inr (\<exists>p \<in> set (iterate_mask ?pm). ?match p)"
    using rng by (rule check_input_combination_loop_eq)
  also have "(\<exists>p \<in> set (iterate_mask ?pm). ?match p) \<longleftrightarrow>
      (?pm \<noteq> 0 \<and> (\<exists>p. p AND ?him = p \<and> p AND ?bm = 0 \<and> ?match p))"
    unfolding setim by (auto simp: free_probe_setting_iff)
  finally show ?thesis .
qed


text \<open>
  Claim C1 fails on the code where no probe bit is free. The device has no probe pins
  (\<open>H = 0\<close>), so the probe mask is 0. In the dump of the buffer the output follows the
  input. At both sub-addresses the empty setting \<open>p = 0\<close> makes the probe word equal to the
  masked data word (both are 0), so the claim calls both combinations relevant, as the
  comment above the function does: a combination is irrelevant only if the two words differ
  for all settings. The code tries no setting and returns false at both, every combination
  becomes a don't-care, and the run writes the same constant equation \<open>O = 'b'0;\<close> for the
  buffer and for the inverter.
\<close>

theorem relevance_test_failing_input:
  "hiz_input_mask buffer_device = 0 \<and>
   analyse buffer_device buffer_dump =
     Inr [new_Pin\<lparr>name := ''O'', number := 12, bitmask := 1, hizprobebitpos := None,
            seenlow := True, seenhigh := True,
            depends := \<lparr>bitmap = 1, bits = [1], pinnames = [''I'']\<rparr>,
            dontcareterms := [0, 1]\<rparr>] \<and>
   analyse buffer_device inverter_dump = analyse buffer_device buffer_dump \<and>
   (0 AND hiz_input_mask buffer_device = 0 \<and> (0::int) AND 1 = 0 \<and>
    drop_bit (eprom_address_width buffer_device - eprom_hiz_probe_pins buffer_device)
      ((0 OR 0) AND hiz_input_mask buffer_device)
    = (buffer_dump ! nat (0 OR 0)) AND NOT (hiz_data_mask buffer_device) \<and>
    drop_bit (eprom_address_width buffer_device - eprom_hiz_probe_pins buffer_device)
      ((1 OR 0) AND hiz_input_mask buffer_device)
    = (buffer_dump ! nat (1 OR 0)) AND NOT (hiz_data_mask buffer_device)) \<and>
   check_input_combination_is_relevent buffer_device buffer_dump
     (new_Pin\<lparr>name := ''O'', number := 12, bitmask := 1, hizprobebitpos := None,
        depends := \<lparr>bitmap = 1, bits = [1], pinnames = [''I'']\<rparr>\<rparr>) 0 = Inr False \<and>
   check_input_combination_is_relevent buffer_device buffer_dump
     (new_Pin\<lparr>name := ''O'', number := 12, bitmask := 1, hizprobebitpos := None,
        depends := \<lparr>bitmap = 1, bits = [1], pinnames = [''I'']\<rparr>\<rparr>) 1 = Inr False \<and>
   equations_file each_minterm ''11/04/26'' buffer_device buffer_dump Auto Auto ''dump''
     = equations_file each_minterm ''11/04/26'' buffer_device inverter_dump Auto Auto ''dump'' \<and>
   write_equations_pin_output_equations each_minterm Auto
     [new_Pin\<lparr>name := ''O'', number := 12, bitmask := 1, hizprobebitpos := None,
        seenlow := True, seenhigh := True,
        depends := \<lparr>bitmap = 1, bits = [1], pinnames = [''I'']\<rparr>,
        dontcareterms := [0, 1]\<rparr>]
     = Inr [NL, ''/* Output equations */'' @ NL, NL,
            ''O = '' @ QUOTE @ ''b'' @ QUOTE @ ''0;'' @ NL, NL]"
proof -
  have a: "analyse buffer_device buffer_dump =
     Inr [new_Pin\<lparr>name := ''O'', number := 12, bitmask := 1, hizprobebitpos := None,
            seenlow := True, seenhigh := True,
            depends := \<lparr>bitmap = 1, bits = [1], pinnames = [''I'']\<rparr>,
            dontcareterms := [0, 1]\<rparr>]"
    by code_simp
  have b: "analyse buffer_device inverter_dump =
     Inr [new_Pin\<lparr>name := ''O'', number := 12, bitmask := 1, hizprobebitpos := None,
            seenlow := True, seenhigh := True,
            depends := \<lparr>bitmap = 1, bits = [1], pinnames = [''I'']\<rparr>,
            dontcareterms := [0, 1]\<rparr>]"
    by code_simp
  have c0: "check_input_combination_is_relevent buffer_device buffer_dump
     (new_Pin\<lparr>name := ''O'', number := 12, bitmask := 1, hizprobebitpos := None,
        depends := \<lparr>bitmap = 1, bits = [1], pinnames = [''I'']\<rparr>\<rparr>) 0 = Inr False"
    by code_simp
  have c1: "check_input_combination_is_relevent buffer_device buffer_dump
     (new_Pin\<lparr>name := ''O'', number := 12, bitmask := 1, hizprobebitpos := None,
        depends := \<lparr>bitmap = 1, bits = [1], pinnames = [''I'']\<rparr>\<rparr>) 1 = Inr False"
    by code_simp
  have m: "hiz_input_mask buffer_device = 0" "hiz_data_mask buffer_device = 255"
    by (simp_all add: hiz_input_mask_def hiz_data_mask_def buffer_device_def)
  have n: "(0::int) AND NOT 255 = 0" "(1::int) AND NOT 255 = 0"
    by (simp_all add: bit_eq_iff bit_and_iff bit_not_int_iff bit_numeral_simps bit_1_iff)
  have w: "write_equations_pin_output_equations each_minterm Auto
     [new_Pin\<lparr>name := ''O'', number := 12, bitmask := 1, hizprobebitpos := None,
        seenlow := True, seenhigh := True,
        depends := \<lparr>bitmap = 1, bits = [1], pinnames = [''I'']\<rparr>,
        dontcareterms := [0, 1]\<rparr>]
     = Inr [NL, ''/* Output equations */'' @ NL, NL,
            ''O = '' @ QUOTE @ ''b'' @ QUOTE @ ''0;'' @ NL, NL]"
    by (simp add: write_equations_pin_output_equations_def write_equations_pin_output_equation_def
        new_Pin_def new_PinDependencies_def Let_def simplify_minterms_def each_minterm_def
        write_simplified_equations_def write_pin_equations_def write_equations_section_title_def
        write_equations_newline_def NOTSTR_def)
  have f: "equations_file each_minterm ''11/04/26'' buffer_device buffer_dump Auto Auto ''dump''
     = equations_file each_minterm ''11/04/26'' buffer_device inverter_dump Auto Auto ''dump''"
    by (simp add: equations_file_def a b)
  have p0: "0 AND hiz_input_mask buffer_device = 0" "(0::int) AND 1 = 0"
    by simp_all
  have q0: "drop_bit (eprom_address_width buffer_device - eprom_hiz_probe_pins buffer_device)
      ((0 OR 0) AND hiz_input_mask buffer_device)
    = (buffer_dump ! nat (0 OR 0)) AND NOT (hiz_data_mask buffer_device)"
    by (simp add: m n buffer_dump_def)
  have q1: "drop_bit (eprom_address_width buffer_device - eprom_hiz_probe_pins buffer_device)
      ((1 OR 0) AND hiz_input_mask buffer_device)
    = (buffer_dump ! nat (1 OR 0)) AND NOT (hiz_data_mask buffer_device)"
    by (simp add: m n buffer_dump_def)
  have ba: "analyse buffer_device inverter_dump = analyse buffer_device buffer_dump"
    by (simp only: a b)
  show ?thesis
    by (intro conjI) (fact m(1) a ba p0 q0 q1 c0 c1 f w)+
qed

lemma get_output_pin_data_loop_eq:
  assumes "\<forall>s \<in> set ss. 0 \<le> epromaddr OR s \<and> epromaddr OR s < int (length dumpdata) \<and>
             0 \<le> (epromaddr OR s) XOR hizprobebitmask outputpin \<and>
             (epromaddr OR s) XOR hizprobebitmask outputpin < int (length dumpdata)"
  shows "get_output_pin_data_loop dumpdata outputpin epromaddr ss =
     (case find (\<lambda>s. driven dumpdata outputpin (epromaddr OR s)) ss of
        None \<Rightarrow> Inl (RuntimeError (no_drive_message outputpin))
      | Some s \<Rightarrow> Inr (dumpdata ! nat (epromaddr OR s)))"
  using assms by (induction ss) (auto simp: py_index_in_range Let_def driven_def)

text \<open>
  Claim C3. On a dump of \<open>2 ^ A\<close> words, for an address, a probe mask and an
  output-enable bitmap below \<open>2 ^ A\<close>: when the pin is driven at the address the lookup
  returns the word at the address; otherwise a word it returns is the word at an address
  \<open>addr OR s\<close>, with \<open>s\<close> a sub-mask of the output-enable bitmap, where the pin is driven;
  it raises the no-drive error if and only if there is no such address; and it raises
  nothing else.
\<close>

theorem effective_output_value:
  assumes "length dumpdata = 2 ^ A"
    and "0 \<le> epromaddr" and "epromaddr < 2 ^ A"
    and "0 \<le> hizprobebitmask outputpin" and "hizprobebitmask outputpin < 2 ^ A"
    and "0 \<le> bitmap (oe_depends outputpin)" and "bitmap (oe_depends outputpin) < 2 ^ A"
  shows "(driven dumpdata outputpin epromaddr \<longrightarrow>
            get_output_pin_data dumpdata outputpin epromaddr = Inr (dumpdata ! nat epromaddr)) \<and>
         (\<not> driven dumpdata outputpin epromaddr \<longrightarrow>
            (\<forall>v. get_output_pin_data dumpdata outputpin epromaddr = Inr v \<longrightarrow>
               (\<exists>s. s AND bitmap (oe_depends outputpin) = s \<and>
                    driven dumpdata outputpin (epromaddr OR s) \<and>
                    v = dumpdata ! nat (epromaddr OR s)))) \<and>
         (get_output_pin_data dumpdata outputpin epromaddr
            = Inl (RuntimeError (no_drive_message outputpin)) \<longleftrightarrow>
            \<not> (\<exists>s. s AND bitmap (oe_depends outputpin) = s \<and>
                    driven dumpdata outputpin (epromaddr OR s))) \<and>
         (\<forall>e. get_output_pin_data dumpdata outputpin epromaddr = Inl e \<longrightarrow>
            e = RuntimeError (no_drive_message outputpin))"
proof -
  let ?M = "bitmap (oe_depends outputpin)"
  let ?h = "hizprobebitmask outputpin"
  let ?ss = "iterate_mask ?M"
  let ?dr = "\<lambda>s. driven dumpdata outputpin (epromaddr OR s)"
  have a1: "py_index dumpdata epromaddr = Inr (dumpdata ! nat epromaddr)"
    using assms(1-3) by (simp add: py_index_in_range)
  have a2: "py_index dumpdata (epromaddr XOR ?h) = Inr (dumpdata ! nat (epromaddr XOR ?h))"
    using xor_in_range[OF assms(2,3,4,5)] assms(1) by (simp add: py_index_in_range)
  have setss: "set ?ss = (if ?M \<noteq> 0 then {s. s AND ?M = s} else {})"
  proof (cases "?M = 0")
    case True then show ?thesis by (simp add: iterate_mask_def)
  next
    case False
    then have "1 \<le> ?M" using assms(6) by linarith
    then show ?thesis using False by (simp add: set_iterate_mask)
  qed
  have rng: "\<forall>s \<in> set ?ss. 0 \<le> epromaddr OR s \<and> epromaddr OR s < int (length dumpdata) \<and>
             0 \<le> (epromaddr OR s) XOR ?h \<and> (epromaddr OR s) XOR ?h < int (length dumpdata)"
  proof
    fix s assume "s \<in> set ?ss"
    then have "s AND ?M = s" using setss by (auto split: if_splits)
    then have s: "0 \<le> s \<and> s < 2 ^ A" using assms(6,7) by (rule submask_in_range)
    then have o: "0 \<le> epromaddr OR s \<and> epromaddr OR s < 2 ^ A"
      using or_in_range[of epromaddr A s] assms(2,3) by simp
    then have "0 \<le> (epromaddr OR s) XOR ?h \<and> (epromaddr OR s) XOR ?h < 2 ^ A"
      using xor_in_range[of "epromaddr OR s" A ?h] assms(4,5) by simp
    with o show "0 \<le> epromaddr OR s \<and> epromaddr OR s < int (length dumpdata) \<and>
             0 \<le> (epromaddr OR s) XOR ?h \<and> (epromaddr OR s) XOR ?h < int (length dumpdata)"
      using assms(1) by simp
  qed
  have loop: "get_output_pin_data_loop dumpdata outputpin epromaddr ?ss =
     (case find ?dr ?ss of
        None \<Rightarrow> Inl (RuntimeError (no_drive_message outputpin))
      | Some s \<Rightarrow> Inr (dumpdata ! nat (epromaddr OR s)))"
    using rng by (rule get_output_pin_data_loop_eq)
  have get: "get_output_pin_data dumpdata outputpin epromaddr =
      (if driven dumpdata outputpin epromaddr then Inr (dumpdata ! nat epromaddr)
       else case find ?dr ?ss of
          None \<Rightarrow> Inl (RuntimeError (no_drive_message outputpin))
        | Some s \<Rightarrow> Inr (dumpdata ! nat (epromaddr OR s)))"
    by (simp add: get_output_pin_data_def a1 a2 loop driven_def)
  have zero_sub: "(0::int) AND ?M = 0" by simp
  have ex_iff: "(\<exists>s. s AND ?M = s \<and> ?dr s) \<longleftrightarrow>
      driven dumpdata outputpin epromaddr \<or> (\<exists>s \<in> set ?ss. ?dr s)"
  proof
    assume "\<exists>s. s AND ?M = s \<and> ?dr s"
    then obtain s where s: "s AND ?M = s" "?dr s" by blast
    show "driven dumpdata outputpin epromaddr \<or> (\<exists>s \<in> set ?ss. ?dr s)"
    proof (cases "?M = 0")
      case True
      then have "s = 0" using s(1) by simp
      then show ?thesis using s(2) by simp
    next
      case False
      then have "s \<in> set ?ss" using s(1) setss by simp
      then show ?thesis using s(2) by blast
    qed
  next
    assume "driven dumpdata outputpin epromaddr \<or> (\<exists>s \<in> set ?ss. ?dr s)"
    then show "\<exists>s. s AND ?M = s \<and> ?dr s"
    proof
      assume "driven dumpdata outputpin epromaddr"
      then have "?dr 0" by simp
      with zero_sub show ?thesis by blast
    next
      assume "\<exists>s \<in> set ?ss. ?dr s"
      then show ?thesis using setss by (auto split: if_splits)
    qed
  qed
  show ?thesis
  proof (cases "driven dumpdata outputpin epromaddr")
    case True
    then show ?thesis using ex_iff by (simp add: get)
  next
    case False
    show ?thesis
    proof (cases "find ?dr ?ss")
      case None
      then have "\<not> (\<exists>s \<in> set ?ss. ?dr s)" by (simp add: find_None_iff)
      then show ?thesis using False None ex_iff by (simp add: get)
    next
      case (Some s)
      then have s: "s \<in> set ?ss" "?dr s" by (auto simp: find_Some_iff)
      then have sub: "s AND ?M = s" using setss by (auto split: if_splits)
      have g: "get_output_pin_data dumpdata outputpin epromaddr = Inr (dumpdata ! nat (epromaddr OR s))"
        using False Some by (simp add: get)
      show ?thesis
        unfolding g using False s(2) sub by auto
    qed
  qed
qed

theorem effective_output_value_witness:
  "length oe_dump = 2 ^ 3 \<and>
   hizprobebitmask (oe_pins ! 0) = 4 \<and> bitmap (oe_depends (oe_pins ! 0)) = 2 \<and>
   \<not> driven oe_dump (oe_pins ! 0) 1 \<and>
   get_output_pin_data oe_dump (oe_pins ! 0) 1 = Inr 1 \<and>
   (\<exists>s. s AND 2 = s \<and> driven oe_dump (oe_pins ! 0) (1 OR s) \<and> 1 = oe_dump ! nat (1 OR s))"
proof -
  let ?op = "oe_pins ! 0"
  have h1: "length oe_dump = 2 ^ 3" by (simp add: oe_dump_def)
  have h2: "(0::int) \<le> 1" and h3: "(1::int) < 2 ^ 3" by simp_all
  have hm: "hizprobebitmask ?op = 4" and bm: "bitmap (oe_depends ?op) = 2"
    by (simp_all add: oe_pins_eq)
  have h4: "0 \<le> hizprobebitmask ?op" and h5: "hizprobebitmask ?op < 2 ^ 3"
    by (simp_all add: hm)
  have h6: "0 \<le> bitmap (oe_depends ?op)" and h7: "bitmap (oe_depends ?op) < 2 ^ 3"
    by (simp_all add: bm)
  have nd: "\<not> driven oe_dump ?op 1" by (simp add: driven_def oe_dump_def oe_pins_eq)
  have v: "get_output_pin_data oe_dump ?op 1 = Inr 1" unfolding oe_pins_eq by code_simp
  show ?thesis
    using effective_output_value[OF h1 h2 h3 h4 h5 h6 h7] h1 hm bm nd v by simp
qed

subsection \<open>The equations file\<close>

lemma map_each_Inr:
  "map_each f xs = Inr ys \<Longrightarrow> length ys = length xs \<and> (\<forall>i < length xs. f (xs ! i) = Inr (ys ! i))"
proof (induction xs arbitrary: ys)
  case Nil
  then show ?case by simp
next
  case (Cons x xs)
  from Cons.prems obtain y ys' where y: "f x = Inr y" and ys': "map_each f xs = Inr ys'"
    and ys: "ys = y # ys'"
    by (auto split: sum.splits)
  from Cons.IH[OF ys'] have ih: "length ys' = length xs" "\<forall>i < length xs. f (xs ! i) = Inr (ys' ! i)"
    by simp_all
  show ?case
  proof (intro conjI allI impI)
    show "length ys = length (x # xs)" using ih(1) ys by simp
    fix i assume "i < length (x # xs)"
    then show "f ((x # xs) ! i) = Inr (ys ! i)"
      using y ih(2) ys by (cases i) simp_all
  qed
qed

lemma length_write_products:
  "length (write_products signedname pnames n isfirst i ps) = length ps"
  by (induction ps arbitrary: isfirst i) (simp_all add: Let_def)

lemma length_write_pin_equations_products:
  "length (write_pin_equations nm pnames (SProducts ps) pol) = length ps"
  by (simp add: write_pin_equations_def Let_def length_write_products)







text \<open>
  The text of an equation in closed form. The sort key of a product is the list of the
  positions of the 1-bits of its care mask; its symbols are, for each such position \<open>j\<close>,
  the \<open>j\<close>-th pin name when bit \<open>j\<close> of the value is 1 and its negation otherwise.
\<close>

lemma get_set_bits_loop_eq:
  "get_set_bits_loop bitcount bs bitnum (2 ^ bitnum) = filter (bit bs) [bitnum ..< bitcount]"
proof (induction "bitcount - bitnum" arbitrary: bitnum)
  case 0
  then show ?case by (subst get_set_bits_loop.simps) simp
next
  case (Suc d)
  then have lt: "bitnum < bitcount" and d: "d = bitcount - Suc bitnum" by simp_all
  have ih: "get_set_bits_loop bitcount bs (Suc bitnum) (2 ^ Suc bitnum)
              = filter (bit bs) [Suc bitnum ..< bitcount]"
    by (rule Suc.hyps(1)[OF d])
  have p: "(2::int) ^ bitnum * 2 = 2 ^ Suc bitnum"
    by simp
  have t: "bs AND 2 ^ bitnum \<noteq> 0 \<longleftrightarrow> bit bs bitnum"
    by (simp add: and_exp_eq_0_iff_not_bit)
  show ?case
    by (subst get_set_bits_loop.simps) (simp add: lt p ih t upt_conv_Cons del: power_Suc)
qed

lemma get_set_bits_eq: "get_set_bits n m = filter (bit m) [0 ..< n]"
  using get_set_bits_loop_eq[of n m 0] by (simp add: get_set_bits_def)

lemma product_symbols_eq:
  "product_symbols pnames (2 ^ k) bs msk =
     map (\<lambda>j. if bit bs (k + j) then pnames ! j else ''!'' @ pnames ! j)
       (filter (\<lambda>j. bit msk (k + j)) [0 ..< length pnames])"
proof (induction pnames arbitrary: k)
  case Nil
  then show ?case by simp
next
  case (Cons pn rest)
  have p: "(2::int) ^ k * 2 = 2 ^ Suc k" by simp
  have t: "x AND 2 ^ k \<noteq> 0 \<longleftrightarrow> bit x k" for x :: int
    by (simp add: and_exp_eq_0_iff_not_bit)
  have u: "[0 ..< length (pn # rest)] = 0 # map Suc [0 ..< length rest]"
    by (simp add: upt_conv_Cons map_Suc_upt del: upt_Suc)
  show ?case
    unfolding u
    by (simp add: p t Cons.IH[of "Suc k"] filter_map o_def del: power_Suc upt_Suc)
qed

lemma write_products_eq:
  "write_products signedname pnames n isfirstproduct i ps =
     map (\<lambda>k. (if isfirstproduct \<and> k = 0 then signedname @ '' = ''
                else replicate (length signedname) CHR '' '' @ '' # '')
               @ py_join '' & '' (product_symbols pnames 1 (fst (ps ! k)) (snd (ps ! k)))
               @ (if i + k = n - 1 then '';'' else [])
               @ NL) [0 ..< length ps]"
proof (induction ps arbitrary: isfirstproduct i)
  case Nil
  then show ?case by simp
next
  case (Cons p ps)
  have u: "[0 ..< length (p # ps)] = 0 # map Suc [0 ..< length ps]"
    by (simp add: upt_conv_Cons map_Suc_upt del: upt_Suc)
  show ?case
    unfolding u
    by (simp add: Cons.IH Let_def ORSTR_def o_def del: upt_Suc)
qed


lemma write_pin_equations_products:
  "write_pin_equations nm pnames (SProducts ps) pol =
     (let signedname = (if pol = Positive then nm else ''!'' @ nm);
          cover = sort_key (\<lambda>r. filter (bit (snd r)) [0 ..< length pnames]) ps
      in map (\<lambda>i. (if i = 0 then signedname @ '' = ''
                     else replicate (length signedname) CHR '' '' @ '' # '')
                    @ py_join '' & ''
                        (map (\<lambda>j. if bit (fst (cover ! i)) j then pnames ! j else ''!'' @ pnames ! j)
                           (filter (bit (snd (cover ! i))) [0 ..< length pnames]))
                    @ (if i = length cover - 1 then '';'' else [])
                    @ NL) [0 ..< length cover])"
  using product_symbols_eq[of pnames 0]
  by (simp add: write_pin_equations_def write_products_eq get_set_bits_eq Let_def NOTSTR_def)

lemma write_pin_equations_bool:
  "write_pin_equations nm pnames (SBool b) pol =
     [(if pol = Positive then nm else ''!'' @ nm) @ '' = '' @ QUOTE @ ''b'' @ QUOTE
        @ (if b then ''1;'' else ''0;'') @ NL]"
  by (simp add: write_pin_equations_def NOTSTR_def)

text \<open>
  Claim C6. Under automatic polarity, for an output pin with dependencies (the code's test is
  that the bitmap of \<open>depends\<close> is not 0). When both calls of the minimizer return product
  lists, the cover written is the positive one if it is not longer than the negative one and
  the negative one otherwise. What is written for the pin is one line for each product of
  that cover, in the order of the sort keys, and an empty line: the first line starts with
  the pin name (after \<open>!\<close> for the negative cover) and \<open>=\<close>, every further line with as
  many blanks and \<open>#\<close>; each line holds the symbols of its product joined by \<open>&\<close>; the last
  one ends with \<open>;\<close>. The number of products written is the smaller of the two lengths.
  When the positive call returns a boolean, the positive constant equation is written.
\<close>

theorem polarity_auto:
  assumes "bitmap (depends outputpin) \<noteq> 0"
  shows
    "(\<forall>ps ns.
        simplify_minterms boolexprsimplifier (pinnames (depends outputpin))
          (posminterms outputpin) (dontcareterms outputpin) = SProducts ps \<and>
        simplify_minterms boolexprsimplifier (pinnames (depends outputpin))
          (negminterms outputpin) (dontcareterms outputpin) = SProducts ns \<longrightarrow>
        (let positive = (length ps \<le> length ns);
             signedname = (if positive then name outputpin else ''!'' @ name outputpin);
             pnames = pinnames (depends outputpin);
             cover = sort_key (\<lambda>r. filter (bit (snd r)) [0 ..< length pnames])
                       (if positive then ps else ns)
         in write_equations_pin_output_equation boolexprsimplifier Auto outputpin
              = Inr (map (\<lambda>i. (if i = 0 then signedname @ '' = ''
                                 else replicate (length signedname) CHR '' '' @ '' # '')
                                @ py_join '' & ''
                                    (map (\<lambda>j. if bit (fst (cover ! i)) j then pnames ! j
                                               else ''!'' @ pnames ! j)
                                       (filter (bit (snd (cover ! i))) [0 ..< length pnames]))
                                @ (if i = length cover - 1 then '';'' else [])
                                @ NL) [0 ..< length cover]
                     @ [NL]) \<and>
            length cover = min (length ps) (length ns))) \<and>
     (\<forall>b.
        simplify_minterms boolexprsimplifier (pinnames (depends outputpin))
          (posminterms outputpin) (dontcareterms outputpin) = SBool b \<longrightarrow>
        write_equations_pin_output_equation boolexprsimplifier Auto outputpin
          = Inr [name outputpin @ '' = '' @ QUOTE @ ''b'' @ QUOTE
                   @ (if b then ''1;'' else ''0;'') @ NL, NL])"
proof (intro conjI allI impI)
  fix ps ns
  assume s: "simplify_minterms boolexprsimplifier (pinnames (depends outputpin))
          (posminterms outputpin) (dontcareterms outputpin) = SProducts ps \<and>
        simplify_minterms boolexprsimplifier (pinnames (depends outputpin))
          (negminterms outputpin) (dontcareterms outputpin) = SProducts ns"
  have w: "write_equations_pin_output_equation boolexprsimplifier Auto outputpin =
      Inr (write_pin_equations (name outputpin) (pinnames (depends outputpin))
             (SProducts (if length ps \<le> length ns then ps else ns))
             (if length ps \<le> length ns then Positive else Negative) @ [NL])"
    using assms s
    by (simp add: write_equations_pin_output_equation_def write_simplified_equations_def
        write_equations_newline_def Let_def)
  show "let positive = (length ps \<le> length ns);
             signedname = (if positive then name outputpin else ''!'' @ name outputpin);
             pnames = pinnames (depends outputpin);
             cover = sort_key (\<lambda>r. filter (bit (snd r)) [0 ..< length pnames])
                       (if positive then ps else ns)
         in write_equations_pin_output_equation boolexprsimplifier Auto outputpin
              = Inr (map (\<lambda>i. (if i = 0 then signedname @ '' = ''
                                 else replicate (length signedname) CHR '' '' @ '' # '')
                                @ py_join '' & ''
                                    (map (\<lambda>j. if bit (fst (cover ! i)) j then pnames ! j
                                               else ''!'' @ pnames ! j)
                                       (filter (bit (snd (cover ! i))) [0 ..< length pnames]))
                                @ (if i = length cover - 1 then '';'' else [])
                                @ NL) [0 ..< length cover]
                     @ [NL]) \<and>
            length cover = min (length ps) (length ns)"
    unfolding w write_pin_equations_products Let_def
    by (simp add: min_def)
next
  fix b
  assume "simplify_minterms boolexprsimplifier (pinnames (depends outputpin))
          (posminterms outputpin) (dontcareterms outputpin) = SBool b"
  then show "write_equations_pin_output_equation boolexprsimplifier Auto outputpin
          = Inr [name outputpin @ '' = '' @ QUOTE @ ''b'' @ QUOTE
                   @ (if b then ''1;'' else ''0;'') @ NL, NL]"
    using assms
    by (simp add: write_equations_pin_output_equation_def write_simplified_equations_def
        write_equations_newline_def write_pin_equations_bool Let_def)
qed


theorem polarity_auto_witness:
  "bitmap (depends (new_Pin\<lparr>name := ''O'', bitmask := 1,
      depends := \<lparr>bitmap = 3, bits = [1, 2], pinnames = [''I'', ''E'']\<rparr>,
      posminterms := [1, 2, 3], negminterms := [0]\<rparr>)) \<noteq> 0 \<and>
   each_minterm 2 [1, 2, 3] [] = SProducts [(1, 3), (2, 3), (3, 3)] \<and>
   each_minterm 2 [0] [] = SProducts [(0, 3)] \<and>
   write_equations_pin_output_equation each_minterm Auto
     (new_Pin\<lparr>name := ''O'', bitmask := 1,
        depends := \<lparr>bitmap = 3, bits = [1, 2], pinnames = [''I'', ''E'']\<rparr>,
        posminterms := [1, 2, 3], negminterms := [0]\<rparr>)
     = Inr [''!O = !I & !E;'' @ NL, NL] \<and>
   each_minterm 2 [1, 2] [] = SProducts [(1, 3), (2, 3)] \<and>
   each_minterm 2 [0, 3] [] = SProducts [(0, 3), (3, 3)] \<and>
   write_equations_pin_output_equation each_minterm Auto
     (new_Pin\<lparr>name := ''O'', bitmask := 1,
        depends := \<lparr>bitmap = 3, bits = [1, 2], pinnames = [''I'', ''E'']\<rparr>,
        posminterms := [1, 2], negminterms := [0, 3]\<rparr>)
     = Inr [''O = I & !E'' @ NL, ''  # !I & E;'' @ NL, NL]"
proof -
  let ?d = "\<lparr>bitmap = 3, bits = [1, 2], pinnames = [''I'', ''E'']\<rparr>"
  let ?p = "new_Pin\<lparr>name := ''O'', bitmask := 1, depends := ?d,
      posminterms := [1, 2, 3], negminterms := [0]\<rparr>"
  let ?q = "new_Pin\<lparr>name := ''O'', bitmask := 1, depends := ?d,
      posminterms := [1, 2], negminterms := [0, 3]\<rparr>"
  have h: "bitmap (depends ?p) \<noteq> 0" "bitmap (depends ?q) \<noteq> 0" by simp_all
  have e: "each_minterm 2 [1, 2, 3] [] = SProducts [(1, 3), (2, 3), (3, 3)]"
    "each_minterm 2 [0] [] = SProducts [(0, 3)]"
    "each_minterm 2 [1, 2] [] = SProducts [(1, 3), (2, 3)]"
    "each_minterm 2 [0, 3] [] = SProducts [(0, 3), (3, 3)]"
    by (simp_all add: each_minterm_def)
  have sp: "simplify_minterms each_minterm (pinnames (depends ?p)) (posminterms ?p)
              (dontcareterms ?p) = SProducts [(1, 3), (2, 3), (3, 3)] \<and>
            simplify_minterms each_minterm (pinnames (depends ?p)) (negminterms ?p)
              (dontcareterms ?p) = SProducts [(0, 3)]"
    by (simp add: simplify_minterms_def new_Pin_def each_minterm_def)
  have sq: "simplify_minterms each_minterm (pinnames (depends ?q)) (posminterms ?q)
              (dontcareterms ?q) = SProducts [(1, 3), (2, 3)] \<and>
            simplify_minterms each_minterm (pinnames (depends ?q)) (negminterms ?q)
              (dontcareterms ?q) = SProducts [(0, 3), (3, 3)]"
    by (simp add: simplify_minterms_def new_Pin_def each_minterm_def)
  have b: "bit (3::int) 0" "bit (3::int) (Suc 0)" "\<not> bit (0::int) 0" "\<not> bit (0::int) (Suc 0)"
    "bit (1::int) 0" "\<not> bit (1::int) (Suc 0)" "\<not> bit (2::int) 0" "bit (2::int) (Suc 0)"
    by (simp_all add: bit_Suc)
  have u: "[0 ..< 2] = [0, Suc 0]" by (simp add: upt_conv_Cons)
  from polarity_auto[OF h(1), of each_minterm] sp
  have p: "write_equations_pin_output_equation each_minterm Auto ?p
             = Inr [''!O = !I & !E;'' @ NL, NL]"
    by (simp add: Let_def b u)
  from polarity_auto[OF h(2), of each_minterm] sq
  have q: "write_equations_pin_output_equation each_minterm Auto ?q
             = Inr [''O = I & !E'' @ NL, ''  # !I & E;'' @ NL, NL]"
    by (simp add: Let_def b u)
  show ?thesis using h(1) e p q by simp
qed







subsection \<open>The dependency scan\<close>

lemma for_each_append:
  "for_each f (xs @ ys) s =
     (case for_each f xs s of Inl e \<Rightarrow> Inl e | Inr s' \<Rightarrow> for_each f ys s')"
  by (induction xs arbitrary: s) (auto split: sum.splits)

lemma for_each_invariant_aux:
  assumes "for_each f xs s = Inr s'" and "P pre s"
    and "\<And>pre x t t'. P pre t \<Longrightarrow> x \<in> set xs \<Longrightarrow> f x t = Inr t' \<Longrightarrow> P (pre @ [x]) t'"
  shows "P (pre @ xs) s'"
  using assms
proof (induction xs arbitrary: pre s)
  case Nil
  then show ?case by simp
next
  case (Cons x xs)
  from Cons.prems(1) obtain t where t: "f x s = Inr t" and r: "for_each f xs t = Inr s'"
    by (auto split: sum.splits)
  have "P (pre @ [x]) t" using Cons.prems(2) t by (intro Cons.prems(3)) simp_all
  then have "P ((pre @ [x]) @ xs) s'"
    using r Cons.prems(3) by (intro Cons.IH) simp_all
  then show ?case by simp
qed

lemma for_each_invariant:
  assumes "for_each f xs s = Inr s'" and "P [] s"
    and "\<And>pre x t t'. P pre t \<Longrightarrow> x \<in> set xs \<Longrightarrow> f x t = Inr t' \<Longrightarrow> P (pre @ [x]) t'"
  shows "P xs s'"
  using for_each_invariant_aux[OF assms(1), of P "[]"] assms(2,3) by simp

lemma scan_inputpin_nth:
  assumes "scan_inputpin dumpdata a ip ops = Inr ops'"
  shows "length ops' = length ops \<and>
         (\<forall>i < length ops. scan_step dumpdata (a, ip) (ops ! i) = Inr (ops' ! i))"
proof (cases "a AND bitmask ip > 0")
  case True
  then show ?thesis using assms by (simp add: scan_inputpin_def scan_step_def)
next
  case False
  from assms False obtain d0 d1 where d0: "py_index dumpdata a = Inr d0"
    and d1: "py_index dumpdata (a OR bitmask ip) = Inr d1"
    and m: "map_each (scan_outputpin dumpdata ip a (a OR bitmask ip) d0 d1) ops = Inr ops'"
    by (auto simp: scan_inputpin_def Let_def split: sum.splits)
  from map_each_Inr[OF m] show ?thesis
    using False d0 d1 by (simp add: scan_step_def)
qed

lemma for_each_scan_inputpin_nth:
  assumes "for_each (scan_inputpin dumpdata a) ips ops = Inr ops'"
  shows "length ops' = length ops \<and>
         (\<forall>i < length ops.
            for_each (scan_step dumpdata) (map (Pair a) ips) (ops ! i) = Inr (ops' ! i))"
  using assms
proof (induction ips arbitrary: ops)
  case Nil
  then show ?case by simp
next
  case (Cons ip ips)
  from Cons.prems obtain mid where mid: "scan_inputpin dumpdata a ip ops = Inr mid"
    and r: "for_each (scan_inputpin dumpdata a) ips mid = Inr ops'"
    by (auto split: sum.splits)
  from scan_inputpin_nth[OF mid] have m: "length mid = length ops"
    "\<forall>i < length ops. scan_step dumpdata (a, ip) (ops ! i) = Inr (mid ! i)" by simp_all
  from Cons.IH[OF r] have ih: "length ops' = length mid"
    "\<forall>i < length mid. for_each (scan_step dumpdata) (map (Pair a) ips) (mid ! i) = Inr (ops' ! i)"
    by simp_all
  show ?case using m ih by simp
qed

lemma scan_nth_aux:
  assumes "for_each (\<lambda>a. for_each (scan_inputpin dumpdata (int a)) ips) as ops = Inr ops'"
  shows "length ops' = length ops \<and>
         (\<forall>i < length ops.
            for_each (scan_step dumpdata) (List.product (map int as) ips) (ops ! i) = Inr (ops' ! i))"
  using assms
proof (induction as arbitrary: ops)
  case Nil
  then show ?case by simp
next
  case (Cons a as)
  from Cons.prems obtain mid where mid: "for_each (scan_inputpin dumpdata (int a)) ips ops = Inr mid"
    and r: "for_each (\<lambda>a. for_each (scan_inputpin dumpdata (int a)) ips) as mid = Inr ops'"
    by (auto split: sum.splits)
  from for_each_scan_inputpin_nth[OF mid] have m: "length mid = length ops"
    "\<forall>i < length ops. for_each (scan_step dumpdata) (map (Pair (int a)) ips) (ops ! i) = Inr (mid ! i)"
    by simp_all
  from Cons.IH[OF r] have ih: "length ops' = length mid"
    "\<forall>i < length mid. for_each (scan_step dumpdata) (List.product (map int as) ips) (mid ! i)
        = Inr (ops' ! i)"
    by simp_all
  show ?case using m ih by (simp add: for_each_append)
qed

lemma scan_nth:
  assumes "build_outputpins_dependencies device dumpdata ips ops = Inr ops'"
  shows "length ops' = length ops \<and>
         (\<forall>i < length ops.
            for_each (scan_step dumpdata)
              (List.product (map int [0 ..< 2 ^ eprom_address_width device]) ips) (ops ! i)
            = Inr (ops' ! i))"
  using assms unfolding build_outputpins_dependencies_def by (rule scan_nth_aux)


lemma py_index_nonneg:
  "py_index xs i = Inr v \<Longrightarrow> 0 \<le> i \<Longrightarrow> v = xs ! nat i"
  by (auto simp: py_index_def split: if_splits)

lemma and_pos_iff:
  fixes x y :: int
  assumes "0 \<le> x"
  shows "\<not> (x AND y > 0) \<longleftrightarrow> x AND y = 0"
proof -
  have "0 \<le> x AND y" using assms by (rule AND_lower)
  then show ?thesis by linarith
qed

lemma scan_is_hiz_eq:
  assumes "scan_is_hiz dumpdata op a0 a1 d0 d1 = Inr (h0, h1)"
    and "0 \<le> a0" "0 \<le> a1" "0 \<le> hizprobebitmask op"
    and "d0 = dumpdata ! nat a0" "d1 = dumpdata ! nat a1"
  shows "h0 = is_hiz dumpdata op a0 \<and> h1 = is_hiz dumpdata op a1"
proof (cases "hizprobebitpos op = None")
  case True
  then show ?thesis using assms(1) by (simp add: scan_is_hiz_def is_hiz_def)
next
  case False
  from assms(1) False obtain x0 x1 where
    x0: "py_index dumpdata (a0 XOR hizprobebitmask op) = Inr x0"
    and x1: "py_index dumpdata (a1 XOR hizprobebitmask op) = Inr x1"
    and h: "h0 = ((d0 AND bitmask op) \<noteq> (x0 AND bitmask op))"
           "h1 = ((d1 AND bitmask op) \<noteq> (x1 AND bitmask op))"
    by (auto simp: scan_is_hiz_def split: sum.splits)
  have "x0 = dumpdata ! nat (a0 XOR hizprobebitmask op)"
    using x0 assms(2,4) by (intro py_index_nonneg) simp_all
  moreover have "x1 = dumpdata ! nat (a1 XOR hizprobebitmask op)"
    using x1 assms(3,4) by (intro py_index_nonneg) simp_all
  ultimately show ?thesis using h False assms(5,6) by (simp add: is_hiz_def)
qed

lemma scan_step_shape:
  assumes "scan_step dumpdata (a, ip) op = Inr op'"
    and "0 \<le> a" "a < 2 ^ A" "0 \<le> bitmask ip" "0 \<le> hizprobebitmask op"
  shows "op' =
    (if scanned_pair A ip op a
     then (let hiz0 = is_hiz dumpdata op a; hiz1 = is_hiz dumpdata op (a OR bitmask ip);
               o0 = (dumpdata ! nat a) AND bitmask op;
               o1 = (dumpdata ! nat (a OR bitmask ip)) AND bitmask op;
               p1 = (if hiz0 \<noteq> hiz1 \<and> name ip \<notin> set (pinnames (oe_depends op))
                     then op\<lparr>oe_depends := add_dependency ip (oe_depends op)\<rparr> else op);
               p2 = (if \<not> hiz0 \<and> \<not> hiz1 \<and> o0 \<noteq> o1 \<and> name ip \<notin> set (pinnames (depends p1))
                     then p1\<lparr>depends := add_dependency ip (depends p1)\<rparr> else p1)
           in see_output hiz1 o1 (see_output hiz0 o0 p2))
     else op)"
proof -
  let ?a1 = "a OR bitmask ip"
  let ?hm = "hizprobebitmask op"
  have a1: "0 \<le> ?a1" using assms(2,4) by simp
  have g1: "\<not> (a AND bitmask ip > 0) \<longleftrightarrow> a AND bitmask ip = 0"
    using assms(2) by (rule and_pos_iff)
  have g2: "\<not> (a AND ?hm > 0) \<longleftrightarrow> a AND ?hm = 0" using assms(2) by (rule and_pos_iff)
  have g3: "\<not> (?a1 AND ?hm > 0) \<longleftrightarrow> ?a1 AND ?hm = 0" using a1 by (rule and_pos_iff)
  show ?thesis
  proof (cases "scanned_pair A ip op a")
    case False
    then have "a AND bitmask ip > 0 \<or> a AND ?hm > 0 \<or> ?a1 AND ?hm > 0"
      using assms(2,3) g1 g2 g3 by (auto simp: scanned_pair_def)
    then have "op' = op"
      using assms(1) by (auto simp: scan_step_def scan_outputpin_def Let_def split: sum.splits if_splits)
    then show ?thesis using False by simp
  next
    case True
    then have c: "\<not> a AND bitmask ip > 0" "\<not> a AND ?hm > 0" "\<not> ?a1 AND ?hm > 0"
      using g1 g2 g3 by (simp_all add: scanned_pair_def)
    from assms(1) c(1) obtain d0 d1 where d0: "py_index dumpdata a = Inr d0"
      and d1: "py_index dumpdata ?a1 = Inr d1"
      and so: "scan_outputpin dumpdata ip a ?a1 d0 d1 op = Inr op'"
      by (auto simp: scan_step_def Let_def split: sum.splits)
    have d0v: "d0 = dumpdata ! nat a" using d0 assms(2) by (rule py_index_nonneg)
    have d1v: "d1 = dumpdata ! nat ?a1" using d1 a1 by (rule py_index_nonneg)
    from so c(2,3) obtain h0 h1 where
      h: "scan_is_hiz dumpdata op a ?a1 d0 d1 = Inr (h0, h1)"
      by (auto simp: scan_outputpin_def Let_def split: sum.splits)
    from scan_is_hiz_eq[OF h assms(2) a1 assms(5) d0v d1v]
    have hv: "h0 = is_hiz dumpdata op a" "h1 = is_hiz dumpdata op ?a1" by simp_all
    show ?thesis
      using so c(2,3) h True
      by (simp add: scan_outputpin_def Let_def hv[symmetric] d0v[symmetric] d1v[symmetric])
  qed
qed

lemma scan_step_effect:
  assumes "scan_step dumpdata (a, ip) op = Inr op'"
    and "0 \<le> a" "a < 2 ^ A" "0 \<le> bitmask ip" "0 \<le> hizprobebitmask op"
  shows "fixed_fields op' = fixed_fields op"
    and "oe_depends op' =
          (if scanned_pair A ip op a \<and> oe_pair dumpdata ip op a \<and>
              name ip \<notin> set (pinnames (oe_depends op))
           then add_dependency ip (oe_depends op) else oe_depends op)"
    and "depends op' =
          (if scanned_pair A ip op a \<and> value_pair dumpdata ip op a \<and>
              name ip \<notin> set (pinnames (depends op))
           then add_dependency ip (depends op) else depends op)"
    and "seenlow op \<longrightarrow> seenlow op'" and "seenhigh op \<longrightarrow> seenhigh op'"
    and "scanned_pair A ip op a \<and> value_pair dumpdata ip op a \<longrightarrow> seenlow op' \<or> seenhigh op'"
    and "dontcareterms op' = dontcareterms op \<and> negminterms op' = negminterms op \<and>
         posminterms op' = posminterms op \<and> oenegminterms op' = oenegminterms op \<and>
         oeposminterms op' = oeposminterms op"
  unfolding scan_step_shape[OF assms]
  by (auto simp: Let_def see_output_def fixed_fields_def oe_pair_def value_pair_def)


lemma foldr_or_snoc: "foldr (OR) (bs @ [b]) (0::int) = foldr (OR) bs 0 OR b"
  by (induction bs) (simp_all add: or.assoc)

lemma dependencies_ok_new: "dependencies_ok ips new_PinDependencies"
  by (simp add: dependencies_ok_def new_PinDependencies_def)

lemma dependencies_ok_add:
  assumes ok: "dependencies_ok ips d" and ip: "ip \<in> set ips"
    and fresh: "name ip \<notin> set (pinnames d)"
    and inj: "\<forall>x \<in> set ips. \<forall>y \<in> set ips. bitmask x = bitmask y \<longrightarrow> name x = name y"
  shows "dependencies_ok ips (add_dependency ip d)"
proof -
  have len: "length (pinnames d) = length (bits d)"
    and d: "distinct (bits d)"
    and dn: "distinct (pinnames d)"
    and z: "set (zip (bits d) (pinnames d)) \<subseteq> (\<lambda>ip. (bitmask ip, name ip)) ` set ips"
    and b: "bitmap d = foldr (OR) (bits d) 0"
    using ok unfolding dependencies_ok_def by - (elim conjE, assumption)+
  have notin: "bitmask ip \<notin> set (bits d)"
  proof
    assume "bitmask ip \<in> set (bits d)"
    then obtain j where j: "j < length (bits d)" "bits d ! j = bitmask ip"
      unfolding in_set_conv_nth by blast
    have jn: "j < length (pinnames d)" using j(1) len by (simp only:)
    have "(bits d ! j, pinnames d ! j) \<in> set (zip (bits d) (pinnames d))"
      unfolding in_set_zip using j(1) jn by (intro exI[of _ j]) simp
    with z have "(bits d ! j, pinnames d ! j) \<in> (\<lambda>ip. (bitmask ip, name ip)) ` set ips"
      by (rule subsetD)
    then obtain ip' where ip': "ip' \<in> set ips" "(bits d ! j, pinnames d ! j) = (bitmask ip', name ip')"
      by (rule imageE)
    then have e: "bitmask ip' = bitmask ip" "name ip' = pinnames d ! j" using j(2) by simp_all
    from inj ip'(1) ip have "bitmask ip' = bitmask ip \<longrightarrow> name ip' = name ip" by blast
    then have "name ip = pinnames d ! j" using e by simp
    then have "name ip \<in> set (pinnames d)" using jn by (simp only: nth_mem)
    then show False using fresh by simp
  qed
  have zz: "zip (bits d @ [bitmask ip]) (pinnames d @ [name ip])
            = zip (bits d) (pinnames d) @ [(bitmask ip, name ip)]"
    using len by (simp add: zip_append)
  have z': "set (zip (bits d @ [bitmask ip]) (pinnames d @ [name ip]))
            \<subseteq> (\<lambda>ip. (bitmask ip, name ip)) ` set ips"
    unfolding zz using z ip by auto
  have l': "length (pinnames d @ [name ip]) = length (bits d @ [bitmask ip])" using len by simp
  have d': "distinct (bits d @ [bitmask ip])" using d notin by simp
  have dn': "distinct (pinnames d @ [name ip])" using dn fresh by simp
  have b': "bitmap d OR bitmask ip = foldr (OR) (bits d @ [bitmask ip]) 0"
    using b by (simp only: foldr_or_snoc)
  show ?thesis
    unfolding dependencies_ok_def add_dependency_def
    using l' d' dn' z' b' by simp
qed

lemma fixed_fields_cong:
  assumes "fixed_fields p = fixed_fields q"
  shows "scanned_pair A ip p a = scanned_pair A ip q a"
    and "oe_pair dumpdata ip p a = oe_pair dumpdata ip q a"
    and "value_pair dumpdata ip p a = value_pair dumpdata ip q a"
    and "hizprobebitmask p = hizprobebitmask q"
  using assms by (auto simp: fixed_fields_def scanned_pair_def oe_pair_def value_pair_def is_hiz_def)

lemma bitmap_add_dependency: "bitmap (add_dependency ip d) = bitmap d OR bitmask ip"
  and pinnames_add_dependency: "pinnames (add_dependency ip d) = pinnames d @ [name ip]"
  by (simp_all add: add_dependency_def)

lemma scan_invariantD:
  assumes "scan_invariant A dumpdata ips op0 pre op"
  shows "fixed_fields op = fixed_fields op0"
    and "set (pinnames (oe_depends op)) =
       set (pinnames (oe_depends op0)) \<union>
       {name ip | a ip. (a, ip) \<in> set pre \<and> scanned_pair A ip op0 a \<and> oe_pair dumpdata ip op0 a}"
    and "set (pinnames (depends op)) =
       set (pinnames (depends op0)) \<union>
       {name ip | a ip. (a, ip) \<in> set pre \<and> scanned_pair A ip op0 a \<and> value_pair dumpdata ip op0 a}"
    and "dependencies_ok ips (oe_depends op)" and "dependencies_ok ips (depends op)"
    and "bitmap (depends op) \<noteq> 0 \<longrightarrow> seenlow op \<or> seenhigh op"
    and "dontcareterms op = dontcareterms op0" and "negminterms op = negminterms op0"
    and "posminterms op = posminterms op0" and "oenegminterms op = oenegminterms op0"
    and "oeposminterms op = oeposminterms op0"
  using assms unfolding scan_invariant_def by - (elim conjE, assumption)+

lemma scan_invariant_step:
  assumes inv: "scan_invariant A dumpdata ips op0 pre op"
    and step: "scan_step dumpdata (a, ip) op = Inr op'"
    and a: "0 \<le> a" "a < 2 ^ A" and ip: "ip \<in> set ips"
    and nn: "\<forall>x \<in> set ips. 0 \<le> bitmask x" "0 \<le> hizprobebitmask op0"
    and inj: "\<forall>x \<in> set ips. \<forall>y \<in> set ips. bitmask x = bitmask y \<longrightarrow> name x = name y"
  shows "scan_invariant A dumpdata ips op0 (pre @ [(a, ip)]) op'"
proof -
  note i = scan_invariantD[OF inv]
  have ff: "fixed_fields op = fixed_fields op0" by (rule i(1))
  have hm: "0 \<le> hizprobebitmask op" using nn(2) fixed_fields_cong(4)[OF ff] by simp
  have bm: "0 \<le> bitmask ip" using nn(1) ip by simp
  note eff = scan_step_effect[OF step a bm hm]
  note cong = fixed_fields_cong(1-3)[OF ff]
  have ff': "fixed_fields op' = fixed_fields op0" using eff(1) ff by simp
  have oe_ok: "dependencies_ok ips (oe_depends op')"
    unfolding eff(2)
    using i(4) dependencies_ok_add[OF i(4) ip _ inj] by simp
  have dep_ok: "dependencies_ok ips (depends op')"
    unfolding eff(3)
    using i(5) dependencies_ok_add[OF i(5) ip _ inj] by simp
  have oe_set: "set (pinnames (oe_depends op')) =
       set (pinnames (oe_depends op0)) \<union>
       {name ip' | a' ip'. (a', ip') \<in> set (pre @ [(a, ip)]) \<and> scanned_pair A ip' op0 a' \<and>
           oe_pair dumpdata ip' op0 a'}"
    unfolding eff(2) cong
    using i(2) by (auto simp: pinnames_add_dependency)
  have dep_set: "set (pinnames (depends op')) =
       set (pinnames (depends op0)) \<union>
       {name ip' | a' ip'. (a', ip') \<in> set (pre @ [(a, ip)]) \<and> scanned_pair A ip' op0 a' \<and>
           value_pair dumpdata ip' op0 a'}"
    unfolding eff(3) cong
    using i(3) by (auto simp: pinnames_add_dependency)
  have seen: "bitmap (depends op') \<noteq> 0 \<longrightarrow> seenlow op' \<or> seenhigh op'"
  proof
    assume nz: "bitmap (depends op') \<noteq> 0"
    show "seenlow op' \<or> seenhigh op'"
    proof (cases "scanned_pair A ip op a \<and> value_pair dumpdata ip op a")
      case True
      then show ?thesis using eff(6) by simp
    next
      case False
      then have "\<not> (scanned_pair A ip op a \<and> value_pair dumpdata ip op a \<and>
                 name ip \<notin> set (pinnames (depends op)))" by blast
      then have "depends op' = depends op" unfolding eff(3) by (rule if_not_P)
      then have "seenlow op \<or> seenhigh op" using nz i(6) by simp
      then show ?thesis using eff(4,5) by blast
    qed
  qed
  have t1: "dontcareterms op' = dontcareterms op0" using eff(7) i(7) by simp
  have t2: "negminterms op' = negminterms op0" using eff(7) i(8) by simp
  have t3: "posminterms op' = posminterms op0" using eff(7) i(9) by simp
  have t4: "oenegminterms op' = oenegminterms op0" using eff(7) i(10) by simp
  have t5: "oeposminterms op' = oeposminterms op0" using eff(7) i(11) by simp
  show ?thesis
    unfolding scan_invariant_def
    using ff' oe_set dep_set oe_ok dep_ok seen t1 t2 t3 t4 t5 by (intro conjI)
qed

lemma scan_invariant_final:
  assumes run: "for_each (scan_step dumpdata) (List.product (map int [0 ..< 2 ^ A]) ips) op0 = Inr op'"
    and init: "dependencies_ok ips (oe_depends op0)" "dependencies_ok ips (depends op0)"
      "bitmap (depends op0) \<noteq> 0 \<longrightarrow> seenlow op0 \<or> seenhigh op0"
    and nn: "\<forall>x \<in> set ips. 0 \<le> bitmask x" "0 \<le> hizprobebitmask op0"
    and inj: "\<forall>x \<in> set ips. \<forall>y \<in> set ips. bitmask x = bitmask y \<longrightarrow> name x = name y"
  shows "scan_invariant A dumpdata ips op0 (List.product (map int [0 ..< 2 ^ A]) ips) op'"
proof (rule for_each_invariant[OF run])
  show "scan_invariant A dumpdata ips op0 [] op0"
    using init by (simp add: scan_invariant_def)
next
  fix pre x t t'
  assume inv: "scan_invariant A dumpdata ips op0 pre t"
    and x: "x \<in> set (List.product (map int [0 ..< 2 ^ A]) ips)"
    and st: "scan_step dumpdata x t = Inr t'"
  obtain a ip where xe: "x = (a, ip)" by (cases x)
  have a: "0 \<le> a" "a < 2 ^ A" and ip: "ip \<in> set ips"
    using x xe by auto
  show "scan_invariant A dumpdata ips op0 (pre @ [x]) t'"
    unfolding xe
    using inv st[unfolded xe] a ip nn inj by (rule scan_invariant_step)
qed

subsection \<open>The pins built from the profile\<close>

lemma build_inputpin_fields:
  assumes "build_inputpin_configuration device n = Inr p"
  shows "bitmask p = 2 ^ n" and "bitpos p = n"
  using assms
  by (auto simp: build_inputpin_configuration_def new_Pin_def split: sum.splits)

lemma build_inputpins_nth:
  assumes "build_inputpins_configuration device = Inr ips"
  shows "length ips = eprom_address_width device"
    and "\<And>n. n < eprom_address_width device \<Longrightarrow> bitmask (ips ! n) = 2 ^ n"
proof -
  from map_each_Inr[OF assms[unfolded build_inputpins_configuration_def]]
  have len: "length ips = eprom_address_width device"
    and nth: "\<forall>n < eprom_address_width device.
               build_inputpin_configuration device ([0 ..< eprom_address_width device] ! n)
                 = Inr (ips ! n)"
    by simp_all
  show "length ips = eprom_address_width device" by (rule len)
  fix n assume n: "n < eprom_address_width device"
  then have "build_inputpin_configuration device n = Inr (ips ! n)" using nth by simp
  then show "bitmask (ips ! n) = 2 ^ n" by (rule build_inputpin_fields)
qed

lemma build_inputpins_masks:
  assumes "build_inputpins_configuration device = Inr ips"
  shows "\<forall>x \<in> set ips. \<exists>n < eprom_address_width device. bitmask x = 2 ^ n"
    and "\<forall>x \<in> set ips. 0 \<le> bitmask x"
    and "\<forall>x \<in> set ips. \<forall>y \<in> set ips. bitmask x = bitmask y \<longrightarrow> x = y"
proof -
  note b = build_inputpins_nth[OF assms]
  show m: "\<forall>x \<in> set ips. \<exists>n < eprom_address_width device. bitmask x = 2 ^ n"
  proof
    fix x assume "x \<in> set ips"
    then obtain n where "n < length ips" "ips ! n = x" by (auto simp: in_set_conv_nth)
    then show "\<exists>n < eprom_address_width device. bitmask x = 2 ^ n"
      using b by auto
  qed
  then show "\<forall>x \<in> set ips. 0 \<le> bitmask x" by fastforce
  show "\<forall>x \<in> set ips. \<forall>y \<in> set ips. bitmask x = bitmask y \<longrightarrow> x = y"
  proof (intro ballI impI)
    fix x y assume "x \<in> set ips" "y \<in> set ips" and e: "bitmask x = bitmask y"
    then obtain n m where n: "n < length ips" "ips ! n = x" and m: "m < length ips" "ips ! m = y"
      by (auto simp: in_set_conv_nth)
    then have "(2::int) ^ n = 2 ^ m" using b e by auto
    then have "n = m" by simp
    then show "x = y" using n m by simp
  qed
qed

lemma build_outputpin_fields:
  assumes "build_outputpin_configuration device n = Inr p"
  shows "depends p = new_PinDependencies" and "oe_depends p = new_PinDependencies"
    and "\<not> seenlow p" and "\<not> seenhigh p" and "0 \<le> hizprobebitmask p"
    and "dontcareterms p = []" and "negminterms p = []" and "posminterms p = []"
    and "bitmask p = 2 ^ n"
  using assms
  by (auto simp: build_outputpin_configuration_def new_Pin_def Let_def
           split: sum.splits option.splits)

lemma build_outputpins_fields:
  assumes "build_outputpins_configuration device = Inr ops" and "i < length ops"
  shows "depends (ops ! i) = new_PinDependencies" and "oe_depends (ops ! i) = new_PinDependencies"
    and "\<not> seenlow (ops ! i)" and "\<not> seenhigh (ops ! i)" and "0 \<le> hizprobebitmask (ops ! i)"
    and "dontcareterms (ops ! i) = []" and "negminterms (ops ! i) = []"
    and "posminterms (ops ! i) = []"
proof -
  from map_each_Inr[OF assms(1)[unfolded build_outputpins_configuration_def]] assms(2)
  have "build_outputpin_configuration device ([0 ..< pal_output_pins device] ! i) = Inr (ops ! i)"
    by simp
  note f = build_outputpin_fields[OF this]
  show "depends (ops ! i) = new_PinDependencies" by (rule f)
  show "oe_depends (ops ! i) = new_PinDependencies" by (rule f)
  show "\<not> seenlow (ops ! i)" by (rule f)
  show "\<not> seenhigh (ops ! i)" by (rule f)
  show "0 \<le> hizprobebitmask (ops ! i)" by (rule f)
  show "dontcareterms (ops ! i) = []" by (rule f)
  show "negminterms (ops ! i) = []" by (rule f)
  show "posminterms (ops ! i) = []" by (rule f)
qed

text \<open>The state of each output pin after the scan of pins built from the profile.\<close>

lemma scan_of_built_pins:
  assumes ins: "build_inputpins_configuration device = Inr inputpins"
    and outs: "build_outputpins_configuration device = Inr outputpins"
    and scan: "build_outputpins_dependencies device dumpdata inputpins outputpins = Inr scanned"
    and i: "i < length outputpins"
  shows "length scanned = length outputpins"
    and "scan_invariant (eprom_address_width device) dumpdata inputpins (outputpins ! i)
           (List.product (map int [0 ..< 2 ^ eprom_address_width device]) inputpins)
           (scanned ! i)"
proof -
  from scan_nth[OF scan] i
  have len: "length scanned = length outputpins"
    and run: "for_each (scan_step dumpdata)
              (List.product (map int [0 ..< 2 ^ eprom_address_width device]) inputpins)
              (outputpins ! i) = Inr (scanned ! i)"
    by simp_all
  show "length scanned = length outputpins" by (rule len)
  note o = build_outputpins_fields[OF outs i]
  note m = build_inputpins_masks[OF ins]
  have inj: "\<forall>x \<in> set inputpins. \<forall>y \<in> set inputpins. bitmask x = bitmask y \<longrightarrow> name x = name y"
    using m(3) by blast
  show "scan_invariant (eprom_address_width device) dumpdata inputpins (outputpins ! i)
           (List.product (map int [0 ..< 2 ^ eprom_address_width device]) inputpins)
           (scanned ! i)"
    using run
  proof (rule scan_invariant_final)
    show "dependencies_ok inputpins (oe_depends (outputpins ! i))"
      unfolding o(2) by (rule dependencies_ok_new)
    show "dependencies_ok inputpins (depends (outputpins ! i))"
      unfolding o(1) by (rule dependencies_ok_new)
    show "bitmap (depends (outputpins ! i)) \<noteq> 0 \<longrightarrow>
            seenlow (outputpins ! i) \<or> seenhigh (outputpins ! i)"
      unfolding o(1) by (simp add: new_PinDependencies_def)
    show "\<forall>x \<in> set inputpins. 0 \<le> bitmask x" by (rule m(2))
    show "0 \<le> hizprobebitmask (outputpins ! i)" by (rule o(5))
    show "\<forall>x \<in> set inputpins. \<forall>y \<in> set inputpins. bitmask x = bitmask y \<longrightarrow> name x = name y"
      by (rule inj)
  qed
qed

lemma scanned_pair_in_product:
  assumes "scanned_pair A ip op a" and "ip \<in> set ips"
  shows "(a, ip) \<in> set (List.product (map int [0 ..< 2 ^ A]) ips)"
proof -
  have a: "0 \<le> a" "a < 2 ^ A" using assms(1) by (simp_all add: scanned_pair_def)
  then have "nat a < 2 ^ A" by (simp add: nat_less_iff)
  then have "int (nat a) \<in> int ` {0 ..< 2 ^ A}" by (intro imageI) simp
  then have "a \<in> int ` {0 ..< 2 ^ A}" using a(1) by simp
  then show ?thesis using assms(2) by simp
qed

lemma dependencies_ok_member:
  assumes ok: "dependencies_ok ips d" and ip: "ip \<in> set ips"
    and inj: "\<forall>x \<in> set ips. \<forall>y \<in> set ips. bitmask x = bitmask y \<longrightarrow> x = y"
    and names: "distinct (map name ips)"
    and masks: "\<forall>x \<in> set ips. \<exists>n. bitmask x = 2 ^ n"
  shows "bitmask ip \<in> set (bits d) \<longleftrightarrow> name ip \<in> set (pinnames d)"
    and "bitmap d AND bitmask ip \<noteq> 0 \<longleftrightarrow> name ip \<in> set (pinnames d)"
proof -
  have len: "length (pinnames d) = length (bits d)"
    and z: "set (zip (bits d) (pinnames d)) \<subseteq> (\<lambda>ip. (bitmask ip, name ip)) ` set ips"
    and b: "bitmap d = foldr (OR) (bits d) 0"
    using ok unfolding dependencies_ok_def by - (elim conjE, assumption)+
  have entry: "\<exists>ip' \<in> set ips. bits d ! j = bitmask ip' \<and> pinnames d ! j = name ip'"
    if "j < length (bits d)" for j
  proof -
    have jn: "j < length (pinnames d)" using that len by (simp only:)
    have "(bits d ! j, pinnames d ! j) \<in> set (zip (bits d) (pinnames d))"
      unfolding in_set_zip using that jn by (intro exI[of _ j]) simp
    with z have "(bits d ! j, pinnames d ! j) \<in> (\<lambda>ip. (bitmask ip, name ip)) ` set ips"
      by (rule subsetD)
    then show ?thesis by auto
  qed
  have same: "ip' = ip" if "ip' \<in> set ips" "name ip' = name ip" for ip'
    using that names ip by (meson distinct_map inj_onD)
  show m: "bitmask ip \<in> set (bits d) \<longleftrightarrow> name ip \<in> set (pinnames d)"
  proof
    assume "bitmask ip \<in> set (bits d)"
    then obtain j where j: "j < length (bits d)" "bits d ! j = bitmask ip"
      unfolding in_set_conv_nth by blast
    from entry[OF j(1)] obtain ip' where ip': "ip' \<in> set ips" "bits d ! j = bitmask ip'"
      "pinnames d ! j = name ip'" by blast
    then have "ip' = ip" using inj ip j(2) by auto
    then have "pinnames d ! j = name ip" using ip'(3) by simp
    moreover have "j < length (pinnames d)" using j(1) len by (simp only:)
    ultimately show "name ip \<in> set (pinnames d)" by (metis nth_mem)
  next
    assume "name ip \<in> set (pinnames d)"
    then obtain j where j: "j < length (pinnames d)" "pinnames d ! j = name ip"
      unfolding in_set_conv_nth by blast
    have jb: "j < length (bits d)" using j(1) len by (simp only:)
    from entry[OF jb] obtain ip' where ip': "ip' \<in> set ips" "bits d ! j = bitmask ip'"
      "pinnames d ! j = name ip'" by blast
    then have "ip' = ip" using same j(2) by simp
    then have "bits d ! j = bitmask ip" using ip'(2) by simp
    then show "bitmask ip \<in> set (bits d)" using jb by (metis nth_mem)
  qed
  obtain n where n: "bitmask ip = 2 ^ n" using masks ip by blast
  have pow: "\<exists>k. x = (2::int) ^ k" if "x \<in> set (bits d)" for x
  proof -
    from that obtain j where j: "j < length (bits d)" "bits d ! j = x"
      unfolding in_set_conv_nth by blast
    from entry[OF j(1)] obtain ip' where "ip' \<in> set ips" "bits d ! j = bitmask ip'" by blast
    then show ?thesis using masks j(2) by auto
  qed
  have "bitmap d AND bitmask ip \<noteq> 0 \<longleftrightarrow> bit (bitmap d) n"
    unfolding n by (simp add: and_exp_eq_0_iff_not_bit)
  also have "\<dots> \<longleftrightarrow> (\<exists>x \<in> set (bits d). bit x n)"
    unfolding b by (rule bit_foldr_or_general)
  also have "\<dots> \<longleftrightarrow> 2 ^ n \<in> set (bits d)"
  proof
    assume "\<exists>x \<in> set (bits d). bit x n"
    then obtain x where x: "x \<in> set (bits d)" "bit x n" by blast
    from pow[OF x(1)] obtain k where "x = 2 ^ k" by blast
    then show "2 ^ n \<in> set (bits d)" using x by (simp add: bit_exp_iff)
  next
    assume "2 ^ n \<in> set (bits d)"
    moreover have "bit ((2::int) ^ n) n" by (simp add: bit_exp_iff)
    ultimately show "\<exists>x \<in> set (bits d). bit x n" by blast
  qed
  finally show "bitmap d AND bitmask ip \<noteq> 0 \<longleftrightarrow> name ip \<in> set (pinnames d)"
    using m n by simp
qed

text \<open>
  Claim C2, for a profile whose input pins have pairwise distinct names (a pin is entered
  in a dependency set by its name). After the scan of the pins built from the profile, for
  every output pin and every input pin \<open>ip\<close>: the name of \<open>ip\<close> is in \<open>oe_depends\<close> if
  and only if there is an address \<open>a\<close> below \<open>2 ^ A\<close>, with the bit of \<open>ip\<close> clear in \<open>a\<close>
  and the probe bit of the output pin clear in \<open>a\<close> and in \<open>a OR mask\<close>, at which the hi-z
  states of the output pin at the two addresses differ; it is in \<open>depends\<close> if and only if
  there is such an address at which neither state is hi-z and the masked data words differ;
  no name is in a set twice; and the name of \<open>ip\<close> is in the list of names of a set exactly
  when its mask is in the list of bits, and exactly when its bit is set in the bitmap.
\<close>

theorem dependency_scan:
  assumes ins: "build_inputpins_configuration device = Inr inputpins"
    and outs: "build_outputpins_configuration device = Inr outputpins"
    and scan: "build_outputpins_dependencies device dumpdata inputpins outputpins = Inr scanned"
    and names: "distinct (map name inputpins)"
    and i: "i < length outputpins" and ip: "ip \<in> set inputpins"
  shows "(name ip \<in> set (pinnames (oe_depends (scanned ! i))) \<longleftrightarrow>
            (\<exists>a. scanned_pair (eprom_address_width device) ip (outputpins ! i) a \<and>
                 oe_pair dumpdata ip (outputpins ! i) a)) \<and>
         (name ip \<in> set (pinnames (depends (scanned ! i))) \<longleftrightarrow>
            (\<exists>a. scanned_pair (eprom_address_width device) ip (outputpins ! i) a \<and>
                 value_pair dumpdata ip (outputpins ! i) a)) \<and>
         distinct (pinnames (oe_depends (scanned ! i))) \<and>
         distinct (pinnames (depends (scanned ! i))) \<and>
         (bitmask ip \<in> set (bits (oe_depends (scanned ! i))) \<longleftrightarrow>
            name ip \<in> set (pinnames (oe_depends (scanned ! i)))) \<and>
         (bitmap (oe_depends (scanned ! i)) AND bitmask ip \<noteq> 0 \<longleftrightarrow>
            name ip \<in> set (pinnames (oe_depends (scanned ! i)))) \<and>
         (bitmask ip \<in> set (bits (depends (scanned ! i))) \<longleftrightarrow>
            name ip \<in> set (pinnames (depends (scanned ! i)))) \<and>
         (bitmap (depends (scanned ! i)) AND bitmask ip \<noteq> 0 \<longleftrightarrow>
            name ip \<in> set (pinnames (depends (scanned ! i))))"
proof -
  let ?A = "eprom_address_width device"
  let ?xs = "List.product (map int [0 ..< 2 ^ ?A]) inputpins"
  let ?op = "outputpins ! i"
  note inv = scanned_pair_in_product
  note s = scan_invariantD[OF scan_of_built_pins(2)[OF ins outs scan i]]
  note o = build_outputpins_fields[OF outs i]
  have same: "ip' = ip" if "ip' \<in> set inputpins" "name ip' = name ip" for ip'
    using that names ip by (meson distinct_map inj_onD)
  have oe: "name ip \<in> set (pinnames (oe_depends (scanned ! i))) \<longleftrightarrow>
            (\<exists>a. scanned_pair ?A ip ?op a \<and> oe_pair dumpdata ip ?op a)"
  proof
    assume "name ip \<in> set (pinnames (oe_depends (scanned ! i)))"
    then obtain a ip' where "ip' \<in> set inputpins" "name ip = name ip'"
      "scanned_pair ?A ip' ?op a" "oe_pair dumpdata ip' ?op a"
      unfolding s(2) o(2) by (auto simp: new_PinDependencies_def)
    moreover then have "ip' = ip" using same by simp
    ultimately show "\<exists>a. scanned_pair ?A ip ?op a \<and> oe_pair dumpdata ip ?op a" by blast
  next
    assume "\<exists>a. scanned_pair ?A ip ?op a \<and> oe_pair dumpdata ip ?op a"
    then obtain a where a: "scanned_pair ?A ip ?op a" "oe_pair dumpdata ip ?op a" by blast
    have "(a, ip) \<in> set ?xs" using a(1) ip by (rule scanned_pair_in_product)
    then show "name ip \<in> set (pinnames (oe_depends (scanned ! i)))"
      unfolding s(2) using a by blast
  qed
  have dep: "name ip \<in> set (pinnames (depends (scanned ! i))) \<longleftrightarrow>
            (\<exists>a. scanned_pair ?A ip ?op a \<and> value_pair dumpdata ip ?op a)"
  proof
    assume "name ip \<in> set (pinnames (depends (scanned ! i)))"
    then obtain a ip' where "ip' \<in> set inputpins" "name ip = name ip'"
      "scanned_pair ?A ip' ?op a" "value_pair dumpdata ip' ?op a"
      unfolding s(3) o(1) by (auto simp: new_PinDependencies_def)
    moreover then have "ip' = ip" using same by simp
    ultimately show "\<exists>a. scanned_pair ?A ip ?op a \<and> value_pair dumpdata ip ?op a" by blast
  next
    assume "\<exists>a. scanned_pair ?A ip ?op a \<and> value_pair dumpdata ip ?op a"
    then obtain a where a: "scanned_pair ?A ip ?op a" "value_pair dumpdata ip ?op a" by blast
    have "(a, ip) \<in> set ?xs" using a(1) ip by (rule scanned_pair_in_product)
    then show "name ip \<in> set (pinnames (depends (scanned ! i)))"
      unfolding s(3) using a by blast
  qed
  have di: "distinct (pinnames (oe_depends (scanned ! i)))"
    "distinct (pinnames (depends (scanned ! i)))"
    using s(4,5) by (simp_all add: dependencies_ok_def)
  note m = build_inputpins_masks[OF ins]
  have masks: "\<forall>x \<in> set inputpins. \<exists>n. bitmask x = 2 ^ n" using m(1) by blast
  note oe_m = dependencies_ok_member[OF s(4) ip m(3) names masks]
  note dep_m = dependencies_ok_member[OF s(5) ip m(3) names masks]
  show ?thesis
    by (intro conjI oe dep di oe_m dep_m)
qed

theorem dependency_scan_witness:
  "build_inputpins_configuration oe_device = Inr oe_inputpins \<and>
   build_outputpins_configuration oe_device = Inr oe_outputpins \<and>
   build_outputpins_dependencies oe_device oe_dump oe_inputpins oe_outputpins = Inr oe_scanned \<and>
   distinct (map name oe_inputpins) \<and> 0 < length oe_outputpins \<and>
   oe_inputpins ! 1 \<in> set oe_inputpins \<and>
   name (oe_inputpins ! 1) \<in> set (pinnames (oe_depends (oe_scanned ! 0))) \<and>
   (\<exists>a. scanned_pair (eprom_address_width oe_device) (oe_inputpins ! 1) (oe_outputpins ! 0) a \<and>
        oe_pair oe_dump (oe_inputpins ! 1) (oe_outputpins ! 0) a) \<and>
   name (oe_inputpins ! 1) \<notin> set (pinnames (depends (oe_scanned ! 0))) \<and>
   \<not> (\<exists>a. scanned_pair (eprom_address_width oe_device) (oe_inputpins ! 1) (oe_outputpins ! 0) a \<and>
        value_pair oe_dump (oe_inputpins ! 1) (oe_outputpins ! 0) a)"
proof -
  have h4: "distinct (map name oe_inputpins)" by (simp add: oe_inputpins_eq)
  have h5: "0 < length oe_outputpins" by (simp add: oe_outputpins_eq)
  have h6: "oe_inputpins ! 1 \<in> set oe_inputpins" by (simp add: oe_inputpins_eq)
  have m1: "name (oe_inputpins ! 1) \<in> set (pinnames (oe_depends (oe_scanned ! 0)))"
    by (simp add: oe_inputpins_eq oe_scanned_eq)
  have m2: "name (oe_inputpins ! 1) \<notin> set (pinnames (depends (oe_scanned ! 0)))"
    by (simp add: oe_inputpins_eq oe_scanned_eq)
  show ?thesis
    using dependency_scan[OF oe_runs(1) oe_runs(2) oe_runs(3) h4 h5 h6] oe_runs(1-3) h4 h5 h6 m1 m2
    by simp
qed

text \<open>
  With two input pins of the same name the claim of C2 fails. In the profile
  \<open>dup_device\<close> both address bits are named \<open>I\<close>, and in its dump the output follows
  address bit 0 alone. The pin of address
  bit 1 is in \<open>depends\<close>, by its name; but its only address pairs are \<open>(0, 2)\<close> and
  \<open>(1, 3)\<close>, since its bit is set in 2 and in 3, and at both pairs the masked data words are
  equal.
\<close>

theorem dependency_scan_counterexample:
  "build_inputpins_configuration dup_device = Inr dup_inputpins \<and>
   build_outputpins_configuration dup_device = Inr dup_outputpins \<and>
   build_outputpins_dependencies dup_device dup_dump dup_inputpins dup_outputpins = Inr dup_scanned \<and>
   name (dup_inputpins ! 1) \<in> set (pinnames (depends (dup_scanned ! 0))) \<and>
   bitmask (dup_inputpins ! 1) = 2 \<and>
   \<not> value_pair dup_dump (dup_inputpins ! 1) (dup_outputpins ! 0) 0 \<and>
   \<not> value_pair dup_dump (dup_inputpins ! 1) (dup_outputpins ! 0) 1 \<and>
   \<not> scanned_pair 2 (dup_inputpins ! 1) (dup_outputpins ! 0) 2 \<and>
   \<not> scanned_pair 2 (dup_inputpins ! 1) (dup_outputpins ! 0) 3"
  using dup_runs
  by (simp add: dup_inputpins_eq dup_outputpins_eq dup_scanned_eq dup_dump_def
      value_pair_def scanned_pair_def is_hiz_def)

subsection \<open>The minterm lists\<close>

lemma sort_dependencies_bitmap: "bitmap (sort_dependencies d) = bitmap d"
  by (simp add: sort_dependencies_def Let_def)

lemma sorted_map_fst:
  fixes zs :: "(int \<times> string) list"
  shows "sorted zs \<Longrightarrow> sorted (map fst zs)"
  by (induction zs) (auto simp: less_eq_prod_def)

lemma map_fst_sort_zip:
  fixes bs :: "int list" and ns :: "string list"
  assumes "length ns = length bs"
  shows "map fst (sort (zip bs ns)) = sort bs"
proof (rule properties_for_sort[symmetric])
  have "mset (map fst (sort (zip bs ns))) = mset (map fst (zip bs ns))"
    by (simp only: mset_map mset_sort)
  also have "map fst (zip bs ns) = bs" using assms by simp
  finally show "mset (map fst (sort (zip bs ns))) = mset bs" .
  show "sorted (map fst (sort (zip bs ns)))" by (rule sorted_map_fst) simp
qed

lemma sort_dependencies_bits:
  assumes "length (pinnames d) = length (bits d)"
  shows "bits (sort_dependencies d) = sort (bits d)"
proof (cases "bits d = []")
  case True
  then show ?thesis by (simp add: sort_dependencies_def)
next
  case False
  let ?s1 = "sort (zip (bits d) (pinnames d))"
  have "zip (map fst ?s1) (map snd ?s1) = ?s1" by (rule zip_map_fst_snd)
  moreover have "sort ?s1 = ?s1" by (rule sort_key_id_if_sorted) simp
  ultimately have "bits (sort_dependencies d) = map fst ?s1"
    using False by (simp add: sort_dependencies_def Let_def)
  then show ?thesis using map_fst_sort_zip[OF assms] by simp
qed

lemma powers_list:
  assumes "\<forall>b \<in> set bs. \<exists>n. b = (2::int) ^ n"
  shows "\<exists>ps. bs = map (\<lambda>p. 2 ^ p) ps"
  using assms
proof (induction bs)
  case Nil
  then show ?case by simp
next
  case (Cons b bs)
  then obtain n ps where "b = 2 ^ n" "bs = map (\<lambda>p. 2 ^ p) ps" by auto
  then have "b # bs = map (\<lambda>p. 2 ^ p) (n # ps)" by simp
  then show ?case by (rule exI)
qed

lemma sorted_powers:
  assumes "sorted_wrt (<) (map (\<lambda>p. (2::int) ^ p) ps)"
  shows "sorted_wrt (<) ps"
  using assms by (simp add: sorted_wrt_map)

lemma encode_sorted_dependencies:
  assumes "bits d = map (\<lambda>p. 2 ^ p) ps" and "sorted_wrt (<) ps" and "ps \<noteq> []"
    and "bitmap d = foldr (OR) (bits d) 0"
  shows "map (build_outputpin_minterm d) (iterate_mask (bitmap d))
           = map int [0 ..< 2 ^ length ps]"
    and "bitmap d \<noteq> 0"
proof -
  let ?M = "bitmap d"
  have M0: "0 \<le> ?M" unfolding assms(4) assms(1) by (rule foldr_or_nonneg) auto
  have bitM: "\<And>i. bit ?M i \<longleftrightarrow> i \<in> set ps" unfolding assms(4) assms(1) by (rule bit_foldr_or)
  have "bit ?M (hd ps)" using bitM assms(3) by simp
  then have M1: "1 \<le> ?M" using M0 nonempty_bits_pos by blast
  then show "?M \<noteq> 0" by simp
  have ps: "ps = bitpos_list ?M" using assms(2) M0 bitM by (rule bitpos_list_unique)
  have len: "length ps = popcount ?M" using length_bitpos_list[OF M0] ps by simp
  show "map (build_outputpin_minterm d) (iterate_mask ?M) = map int [0 ..< 2 ^ length ps]"
    using encode_iterate_mask[OF M1] ps assms(1) len
    by (simp add: build_outputpin_minterm_fun)
qed

text \<open>The dependency sets after the sort, for pins of a scan of built pins.\<close>

lemma sorted_dependencies_encode:
  assumes ok: "dependencies_ok ips d"
    and masks: "\<forall>x \<in> set ips. \<exists>n. bitmask x = 2 ^ n"
    and ne: "bits d \<noteq> []"
  shows "map (build_outputpin_minterm (sort_dependencies d)) (iterate_mask (bitmap d))
           = map int [0 ..< 2 ^ length (bits d)]"
    and "bitmap d \<noteq> 0"
proof -
  let ?d = "sort_dependencies d"
  have len: "length (pinnames d) = length (bits d)"
    and dist: "distinct (bits d)"
    and z: "set (zip (bits d) (pinnames d)) \<subseteq> (\<lambda>ip. (bitmask ip, name ip)) ` set ips"
    and b: "bitmap d = foldr (OR) (bits d) 0"
    using ok unfolding dependencies_ok_def by - (elim conjE, assumption)+
  have bits: "bits ?d = sort (bits d)" using len by (rule sort_dependencies_bits)
  have pow: "\<forall>b \<in> set (bits d). \<exists>n. b = (2::int) ^ n"
  proof
    fix x assume "x \<in> set (bits d)"
    then obtain j where j: "j < length (bits d)" "bits d ! j = x"
      unfolding in_set_conv_nth by blast
    have jn: "j < length (pinnames d)" using j(1) len by (simp only:)
    have "(bits d ! j, pinnames d ! j) \<in> set (zip (bits d) (pinnames d))"
      unfolding in_set_zip using j(1) jn by (intro exI[of _ j]) simp
    with z have "(bits d ! j, pinnames d ! j) \<in> (\<lambda>ip. (bitmask ip, name ip)) ` set ips"
      by (rule subsetD)
    then obtain ip where "ip \<in> set ips" "bits d ! j = bitmask ip" by auto
    then show "\<exists>n. x = 2 ^ n" using masks j(2) by auto
  qed
  then have "\<forall>b \<in> set (bits ?d). \<exists>n. b = (2::int) ^ n" unfolding bits by simp
  then obtain ps where ps: "bits ?d = map (\<lambda>p. 2 ^ p) ps" using powers_list by blast
  have "sorted (bits ?d)" "distinct (bits ?d)" unfolding bits using dist by simp_all
  then have "sorted_wrt (<) (bits ?d)" by (simp add: strict_sorted_iff)
  then have sps: "sorted_wrt (<) ps" unfolding ps by (rule sorted_powers)
  have lps: "length ps = length (bits d)"
    using arg_cong[OF ps, of length] bits by simp
  have nps: "ps \<noteq> []" using lps ne by auto
  have bm: "bitmap ?d = foldr (OR) (bits ?d) 0"
    unfolding sort_dependencies_bitmap b bits by (rule foldr_or_set_cong) simp
  from encode_sorted_dependencies[OF ps sps nps bm]
  show "map (build_outputpin_minterm ?d) (iterate_mask (bitmap d))
           = map int [0 ..< 2 ^ length (bits d)]" and "bitmap d \<noteq> 0"
    by (simp_all add: sort_dependencies_bitmap lps)
qed

lemma classify_combination_effect:
  assumes "classify_combination device dumpdata a t = Inr t'"
  shows "depends t' = depends t" and "oe_depends t' = oe_depends t"
    and "seenlow t' = seenlow t" and "seenhigh t' = seenhigh t" and "name t' = name t"
    and "mset (posminterms t') + mset (negminterms t') + mset (dontcareterms t')
         = mset (posminterms t) + mset (negminterms t) + mset (dontcareterms t)
           + {#build_outputpin_minterm (depends t) a#}"
  using assms
  by (auto simp: classify_combination_def Let_def split: sum.splits if_splits)

lemma classify_oe_combination_effect:
  assumes "classify_oe_combination dumpdata a t = Inr t'"
  shows "depends t' = depends t" and "oe_depends t' = oe_depends t"
    and "seenlow t' = seenlow t" and "seenhigh t' = seenhigh t" and "name t' = name t"
    and "posminterms t' = posminterms t" and "negminterms t' = negminterms t"
    and "dontcareterms t' = dontcareterms t"
  using assms
  by (auto simp: classify_oe_combination_def Let_def split: sum.splits if_splits)

lemma classify_loop_effect:
  assumes "for_each (classify_combination device dumpdata) as t = Inr t'"
  shows "depends t' = depends t \<and> oe_depends t' = oe_depends t \<and>
         seenlow t' = seenlow t \<and> seenhigh t' = seenhigh t \<and> name t' = name t \<and>
         mset (posminterms t') + mset (negminterms t') + mset (dontcareterms t')
         = mset (posminterms t) + mset (negminterms t) + mset (dontcareterms t)
           + mset (map (build_outputpin_minterm (depends t)) as)"
  using assms
proof (induction as arbitrary: t)
  case Nil
  then show ?case by simp
next
  case (Cons a as)
  from Cons.prems obtain m where m: "classify_combination device dumpdata a t = Inr m"
    and r: "for_each (classify_combination device dumpdata) as m = Inr t'"
    by (auto split: sum.splits)
  note e = classify_combination_effect[OF m]
  note ih = Cons.IH[OF r]
  show ?case using ih e by (simp add: ac_simps)
qed

lemma classify_oe_loop_effect:
  assumes "for_each (classify_oe_combination dumpdata) as t = Inr t'"
  shows "depends t' = depends t \<and> oe_depends t' = oe_depends t \<and>
         seenlow t' = seenlow t \<and> seenhigh t' = seenhigh t \<and> name t' = name t \<and>
         posminterms t' = posminterms t \<and> negminterms t' = negminterms t \<and>
         dontcareterms t' = dontcareterms t"
  using assms
proof (induction as arbitrary: t)
  case Nil
  then show ?case by simp
next
  case (Cons a as)
  from Cons.prems obtain m where m: "classify_oe_combination dumpdata a t = Inr m"
    and r: "for_each (classify_oe_combination dumpdata) as m = Inr t'"
    by (auto split: sum.splits)
  note e = classify_oe_combination_effect[OF m]
  note ih = Cons.IH[OF r]
  show ?case using ih e by simp
qed

lemma build_outputpin_equations_effect:
  assumes "build_outputpin_equations device dumpdata q = Inr p"
  shows "seenlow p = seenlow q" and "seenhigh p = seenhigh q" and "name p = name q"
    and "depends p = sort_dependencies (depends q)"
    and "oe_depends p = sort_dependencies (oe_depends q)"
    and "mset (posminterms p) + mset (negminterms p) + mset (dontcareterms p)
         = mset (posminterms q) + mset (negminterms q) + mset (dontcareterms q)
           + (if bitmap (depends q) \<noteq> 0
              then mset (map (build_outputpin_minterm (sort_dependencies (depends q)))
                           (iterate_mask (bitmap (depends q))))
              else {#})"
proof -
  define p2 where "p2 = q\<lparr>depends := sort_dependencies (depends q),
                          oe_depends := sort_dependencies (oe_depends q)\<rparr>"
  have p2: "depends p2 = sort_dependencies (depends q)"
    "oe_depends p2 = sort_dependencies (oe_depends q)"
    "seenlow p2 = seenlow q" "seenhigh p2 = seenhigh q" "name p2 = name q"
    "posminterms p2 = posminterms q" "negminterms p2 = negminterms q"
    "dontcareterms p2 = dontcareterms q"
    by (simp_all add: p2_def)
  have unfold: "build_outputpin_equations device dumpdata q =
      (case (if bitmap (depends p2) \<noteq> 0
             then for_each (classify_combination device dumpdata)
                    (iterate_mask (bitmap (depends p2))) p2
             else Inr p2) of
         Inl e \<Rightarrow> Inl e
       | Inr p3 \<Rightarrow>
          if bitmap (oe_depends p3) \<noteq> 0
          then for_each (classify_oe_combination dumpdata)
                 (iterate_mask (bitmap (oe_depends p3))) p3
          else Inr p3)"
    by (simp add: build_outputpin_equations_def Let_def p2_def)
  from assms[unfolded unfold] obtain p3 where
    s1: "(if bitmap (depends p2) \<noteq> 0
          then for_each (classify_combination device dumpdata) (iterate_mask (bitmap (depends p2))) p2
          else Inr p2) = Inr p3"
    and s2: "(if bitmap (oe_depends p3) \<noteq> 0
          then for_each (classify_oe_combination dumpdata) (iterate_mask (bitmap (oe_depends p3))) p3
          else Inr p3) = Inr p"
    by (auto split: sum.splits)
  have e1: "depends p3 = depends p2 \<and> oe_depends p3 = oe_depends p2 \<and>
         seenlow p3 = seenlow p2 \<and> seenhigh p3 = seenhigh p2 \<and> name p3 = name p2 \<and>
         mset (posminterms p3) + mset (negminterms p3) + mset (dontcareterms p3)
         = mset (posminterms p2) + mset (negminterms p2) + mset (dontcareterms p2)
           + (if bitmap (depends p2) \<noteq> 0
              then mset (map (build_outputpin_minterm (depends p2)) (iterate_mask (bitmap (depends p2))))
              else {#})"
  proof (cases "bitmap (depends p2) \<noteq> 0")
    case True
    then have "for_each (classify_combination device dumpdata) (iterate_mask (bitmap (depends p2))) p2
                = Inr p3" using s1 by simp
    from classify_loop_effect[OF this] show ?thesis using True by simp
  next
    case False
    then show ?thesis using s1 by simp
  qed
  have e2: "depends p = depends p3 \<and> oe_depends p = oe_depends p3 \<and>
         seenlow p = seenlow p3 \<and> seenhigh p = seenhigh p3 \<and> name p = name p3 \<and>
         posminterms p = posminterms p3 \<and> negminterms p = negminterms p3 \<and>
         dontcareterms p = dontcareterms p3"
  proof (cases "bitmap (oe_depends p3) \<noteq> 0")
    case True
    then have "for_each (classify_oe_combination dumpdata) (iterate_mask (bitmap (oe_depends p3))) p3
                = Inr p" using s2 by simp
    from classify_oe_loop_effect[OF this] show ?thesis .
  next
    case False
    then show ?thesis using s2 by simp
  qed
  show "seenlow p = seenlow q" and "seenhigh p = seenhigh q" and "name p = name q"
    and "depends p = sort_dependencies (depends q)"
    and "oe_depends p = sort_dependencies (oe_depends q)"
    using e1 e2 p2 by simp_all
  show "mset (posminterms p) + mset (negminterms p) + mset (dontcareterms p)
         = mset (posminterms q) + mset (negminterms q) + mset (dontcareterms q)
           + (if bitmap (depends q) \<noteq> 0
              then mset (map (build_outputpin_minterm (sort_dependencies (depends q)))
                           (iterate_mask (bitmap (depends q))))
              else {#})"
    using e1 e2 p2 by (simp add: sort_dependencies_bitmap)
qed

text \<open>The stages of the analysis, for one pin of its result.\<close>

lemma analyse_pin:
  assumes "analyse device dumpdata = Inr pins" and "p \<in> set pins"
  obtains inputpins outputpins scanned i where
    "build_inputpins_configuration device = Inr inputpins"
    "build_outputpins_configuration device = Inr outputpins"
    "build_outputpins_dependencies device dumpdata inputpins outputpins = Inr scanned"
    "i < length outputpins" "length scanned = length outputpins"
    "build_outputpin_equations device dumpdata (scanned ! i) = Inr p"
proof -
  from assms(1) obtain inputpins outputpins scanned where
    a: "build_inputpins_configuration device = Inr inputpins"
    and b: "build_outputpins_configuration device = Inr outputpins"
    and c: "build_outputpins_dependencies device dumpdata inputpins outputpins = Inr scanned"
    and d: "build_outputpins_equations device dumpdata scanned = Inr pins"
    by (auto simp: analyse_def split: sum.splits)
  from map_each_Inr[OF d[unfolded build_outputpins_equations_def]]
  have len: "length pins = length scanned"
    and nth: "\<forall>i < length scanned. build_outputpin_equations device dumpdata (scanned ! i) = Inr (pins ! i)"
    by simp_all
  from assms(2) obtain i where i: "i < length pins" "pins ! i = p" by (auto simp: in_set_conv_nth)
  have ls: "length scanned = length outputpins" using scan_nth[OF c] by simp
  have "build_outputpin_equations device dumpdata (scanned ! i) = Inr p"
    using nth i len by auto
  moreover have "i < length outputpins" using i(1) len ls by simp
  ultimately show ?thesis using a b c ls that by blast
qed

text \<open>
  Claim C9. In the result of the analysis, an output pin without output-enable dependency
  that was seen neither low nor high has no dependency either, and the writer of the output
  equations writes nothing for it, whatever the minimizer and the polarity.
\<close>

theorem hi_z_pin_no_output_equation:
  assumes "analyse device dumpdata = Inr pins" and "p \<in> set pins"
    and "bitmap (oe_depends p) = 0" and "\<not> seenlow p" and "\<not> seenhigh p"
  shows "write_equations_pin_output_equation boolexprsimplifier pol p = Inr []"
proof -
  from assms(1,2) obtain inputpins outputpins scanned i where
    a: "build_inputpins_configuration device = Inr inputpins"
    and b: "build_outputpins_configuration device = Inr outputpins"
    and c: "build_outputpins_dependencies device dumpdata inputpins outputpins = Inr scanned"
    and i: "i < length outputpins"
    and e: "build_outputpin_equations device dumpdata (scanned ! i) = Inr p"
    by (rule analyse_pin)
  note s = scan_invariantD[OF scan_of_built_pins(2)[OF a b c i]]
  note f = build_outputpin_equations_effect[OF e]
  have "\<not> (seenlow (scanned ! i) \<or> seenhigh (scanned ! i))"
    using assms(4,5) f(1,2) by simp
  then have "bitmap (depends (scanned ! i)) = 0" using s(6) by blast
  then have "bitmap (depends p) = 0" unfolding f(4) by (simp add: sort_dependencies_bitmap)
  then show ?thesis
    using assms(4,5) by (simp add: write_equations_pin_output_equation_def)
qed

theorem hi_z_pin_no_output_equation_witness:
  "analyse demo_device demo_dump = Inr demo_pins \<and> demo_pins ! 0 \<in> set demo_pins \<and>
   bitmap (oe_depends (demo_pins ! 0)) = 0 \<and>
   \<not> seenlow (demo_pins ! 0) \<and> \<not> seenhigh (demo_pins ! 0) \<and>
   write_equations_pin_output_equation each_minterm Auto (demo_pins ! 0) = Inr []"
proof -
  have h2: "demo_pins ! 0 \<in> set demo_pins" by (simp add: demo_pins_eq)
  have h3: "bitmap (oe_depends (demo_pins ! 0)) = 0"
    by (simp add: demo_pins_eq new_Pin_def new_PinDependencies_def)
  have h4: "\<not> seenlow (demo_pins ! 0)" and h5: "\<not> seenhigh (demo_pins ! 0)"
    by (simp_all add: demo_pins_eq new_Pin_def)
  show ?thesis
    using hi_z_pin_no_output_equation[OF demo_analyse h2 h3 h4 h5] demo_analyse h2 h3 h4 h5
    by simp
qed

text \<open>
  Claim C4. In the result of the analysis, for an output pin with \<open>k > 0\<close> dependencies,
  the three lists of positive, negative and don't-care minterms have no duplicates, are
  pairwise disjoint, and together hold exactly the integers \<open>0, \<dots>, 2 ^ k - 1\<close>.
\<close>

theorem minterm_closure:
  assumes "analyse device dumpdata = Inr pins" and "p \<in> set pins"
    and "bits (depends p) \<noteq> []"
  shows "set (posminterms p) \<union> set (negminterms p) \<union> set (dontcareterms p)
           = {m. 0 \<le> m \<and> m < 2 ^ length (bits (depends p))} \<and>
         set (posminterms p) \<inter> set (negminterms p) = {} \<and>
         set (posminterms p) \<inter> set (dontcareterms p) = {} \<and>
         set (negminterms p) \<inter> set (dontcareterms p) = {} \<and>
         distinct (posminterms p) \<and> distinct (negminterms p) \<and> distinct (dontcareterms p)"
proof -
  from assms(1,2) obtain inputpins outputpins scanned i where
    a: "build_inputpins_configuration device = Inr inputpins"
    and b: "build_outputpins_configuration device = Inr outputpins"
    and c: "build_outputpins_dependencies device dumpdata inputpins outputpins = Inr scanned"
    and i: "i < length outputpins"
    and e: "build_outputpin_equations device dumpdata (scanned ! i) = Inr p"
    by (rule analyse_pin)
  let ?q = "scanned ! i"
  let ?k = "length (bits (depends p))"
  note s = scan_invariantD[OF scan_of_built_pins(2)[OF a b c i]]
  note f = build_outputpin_equations_effect[OF e]
  note o = build_outputpins_fields[OF b i]
  have ok: "dependencies_ok inputpins (depends ?q)" by (rule s(5))
  have len: "length (pinnames (depends ?q)) = length (bits (depends ?q))"
    using ok by (simp add: dependencies_ok_def)
  have bits: "bits (depends p) = sort (bits (depends ?q))"
    unfolding f(4) using len by (rule sort_dependencies_bits)
  have k: "?k = length (bits (depends ?q))" unfolding bits by simp
  have ne: "bits (depends ?q) \<noteq> []" using assms(3) bits by auto
  have masks: "\<forall>x \<in> set inputpins. \<exists>n. bitmask x = 2 ^ n"
    using build_inputpins_masks(1)[OF a] by blast
  note enc = sorted_dependencies_encode[OF ok masks ne]
  have empty: "posminterms ?q = []" "negminterms ?q = []" "dontcareterms ?q = []"
    using s(7,8,9) o(6,7,8) by simp_all
  have m: "mset (posminterms p) + mset (negminterms p) + mset (dontcareterms p)
           = mset (map int [0 ..< 2 ^ ?k])"
    using f(6) enc empty k by simp
  then have m': "mset (posminterms p @ negminterms p @ dontcareterms p)
           = mset (map int [0 ..< 2 ^ ?k])" by (simp add: ac_simps)
  have "distinct (map int [0 ..< 2 ^ ?k])" by (simp add: distinct_map inj_on_def)
  then have d: "distinct (posminterms p @ negminterms p @ dontcareterms p)"
    using m' by (metis mset_eq_imp_distinct_iff)
  have "set (posminterms p @ negminterms p @ dontcareterms p) = set (map int [0 ..< 2 ^ ?k])"
    using m' by (rule mset_eq_setD)
  moreover have "set (map int [0 ..< 2 ^ ?k]) = {m. 0 \<le> m \<and> m < 2 ^ ?k}"
  proof (intro set_eqI iffI)
    fix m assume "m \<in> set (map int [0 ..< 2 ^ ?k])"
    then obtain n where "n < 2 ^ ?k" "m = int n" by auto
    then have "0 \<le> m \<and> m < int (2 ^ ?k)" by (simp only: of_nat_less_iff) simp
    then show "m \<in> {m. 0 \<le> m \<and> m < 2 ^ ?k}" by simp
  next
    fix m :: int assume "m \<in> {m. 0 \<le> m \<and> m < 2 ^ ?k}"
    then have m: "0 \<le> m" "m < 2 ^ ?k" by simp_all
    then have "nat m < 2 ^ ?k" by (simp add: nat_less_iff)
    then have "int (nat m) \<in> int ` {0 ..< 2 ^ ?k}" by (intro imageI) simp
    then show "m \<in> set (map int [0 ..< 2 ^ ?k])" using m(1) by simp
  qed
  ultimately have u: "set (posminterms p) \<union> set (negminterms p) \<union> set (dontcareterms p)
           = {m. 0 \<le> m \<and> m < 2 ^ ?k}" by (simp add: Un_assoc)
  from d u show ?thesis by auto
qed

theorem minterm_closure_witness:
  "analyse oe_device oe_dump = Inr oe_pins \<and> oe_pins ! 0 \<in> set oe_pins \<and>
   bits (depends (oe_pins ! 0)) = [1] \<and>
   posminterms (oe_pins ! 0) = [1] \<and> negminterms (oe_pins ! 0) = [0] \<and>
   dontcareterms (oe_pins ! 0) = [] \<and>
   set (posminterms (oe_pins ! 0)) \<union> set (negminterms (oe_pins ! 0))
     \<union> set (dontcareterms (oe_pins ! 0)) = {m. 0 \<le> m \<and> m < 2 ^ 1}"
proof -
  have h2: "oe_pins ! 0 \<in> set oe_pins" by (simp add: oe_pins_eq)
  have b: "bits (depends (oe_pins ! 0)) = [1]" by (simp add: oe_pins_eq)
  then have h3: "bits (depends (oe_pins ! 0)) \<noteq> []" by simp
  have t: "posminterms (oe_pins ! 0) = [1]" "negminterms (oe_pins ! 0) = [0]"
    "dontcareterms (oe_pins ! 0) = []" by (simp_all add: oe_pins_eq new_Pin_def)
  from minterm_closure[OF oe_runs(4) h2 h3]
  have "set (posminterms (oe_pins ! 0)) \<union> set (negminterms (oe_pins ! 0))
     \<union> set (dontcareterms (oe_pins ! 0)) = {m. 0 \<le> m \<and> m < 2 ^ length (bits (depends (oe_pins ! 0)))}"
    by blast
  then show ?thesis using oe_runs(4) h2 b t by simp
qed


end
